theory Spec2Isabelle
  imports Main "HOL-Library.Sublist" "HOL-Library.AList"
begin

section \<open>Python values used by the crawler\<close>

text \<open>
  A Python \<open>str\<close> is the list of its code points, so that the non-ASCII characters of the
  source (the yen signs, the Chinese keywords) are single characters, as they are for
  Python's \<open>len\<close>, \<open>in\<close> and \<open>re\<close>. ASCII literals of the source are written as HOL strings
  and converted by \<open>u\<close>.
\<close>

type_synonym ustr = "nat list"

definition u :: "string \<Rightarrow> ustr" where
  "u s = map of_char s"

text \<open>A call into the browser either raises or returns.\<close>

datatype 'a attempt = Raised | Returned 'a

text \<open>\<open>sub in s\<close> on strings.\<close>

fun py_in :: "ustr \<Rightarrow> ustr \<Rightarrow> bool" where
  "py_in sub [] = (sub = [])"
| "py_in sub (c # cs) = (prefix sub (c # cs) \<or> py_in sub cs)"

text \<open>\<open>s.startswith(p)\<close>.\<close>

definition startswith :: "ustr \<Rightarrow> ustr \<Rightarrow> bool" where
  "startswith s p = prefix p s"

text \<open>
  \<open>s.lower()\<close> is a parameter \<open>lower\<close> of every function that calls it: the theorems hold
  whatever it returns. \<open>lower_ascii\<close> is \<open>str.lower\<close> on strings of ASCII characters; it
  is used for the example inputs only, whose URLs are ASCII.
\<close>

definition lower_char :: "nat \<Rightarrow> nat" where
  "lower_char c = (if 65 \<le> c \<and> c \<le> 90 then c + 32 else c)"

definition lower_ascii :: "ustr \<Rightarrow> ustr" where
  "lower_ascii s = map lower_char s"

text \<open>\<open>str.isspace\<close> for one character: Python's table of whitespace code points.\<close>

definition py_isspace :: "nat \<Rightarrow> bool" where
  "py_isspace c =
     ((9 \<le> c \<and> c \<le> 13) \<or> (28 \<le> c \<and> c \<le> 32) \<or> c = 133 \<or> c = 160 \<or> c = 5760
      \<or> (8192 \<le> c \<and> c \<le> 8202) \<or> c = 8232 \<or> c = 8233 \<or> c = 8239 \<or> c = 8287
      \<or> c = 12288)"

text \<open>\<open>s.strip()\<close>.\<close>

definition py_strip :: "ustr \<Rightarrow> ustr" where
  "py_strip s = rev (dropWhile py_isspace (rev (dropWhile py_isspace s)))"

text \<open>
  The decimal digits of Unicode (category Nd, Unicode 14.0.0 as in Python 3.11) come in
  blocks of ten consecutive code points with the values 0 to 9. \<open>decimal_blocks\<close> lists
  the first code point of each block outside ASCII. \<open>decimal_value\<close> is the digit's value
  (\<open>unicodedata.decimal\<close>); \<open>is_digit\<close> is \<open>str.isdecimal\<close> for one character, which is
  also what \<open>\d\<close> matches in a \<open>str\<close> pattern.
\<close>

definition decimal_blocks :: "nat list" where
  "decimal_blocks =
     [1632, 1776, 1984, 2406, 2534, 2662, 2790, 2918, 3046, 3174, 3302, 3430, 3558, 3664,
      3792, 3872, 4160, 4240, 6112, 6160, 6470, 6608, 6784, 6800, 6992, 7088, 7232, 7248,
      42528, 43216, 43264, 43472, 43504, 43600, 44016, 65296, 66720, 68912, 69734, 69872,
      69942, 70096, 70384, 70736, 70864, 71248, 71360, 71472, 71904, 72016, 72784, 73040,
      73120, 92768, 92864, 93008, 120782, 120792, 120802, 120812, 120822, 123200, 123632,
      125264, 130032]"

definition decimal_value :: "nat \<Rightarrow> nat option" where
  "decimal_value c =
     (if c < 128 then (if 48 \<le> c \<and> c \<le> 57 then Some (c - 48) else None)
      else map_option (\<lambda>start. c - start)
             (find (\<lambda>start. start \<le> c \<and> c < start + 10) decimal_blocks))"

definition is_digit :: "nat \<Rightarrow> bool" where
  "is_digit c = (decimal_value c \<noteq> None)"

text \<open>
  \<open>int(s)\<close> for a string. Whitespace around the number is dropped: the ASCII characters
  tab to carriage return and blank, and the non-ASCII characters of \<open>str.isspace\<close>
  (the ASCII separators U+001C to U+001F are not dropped). One sign is allowed, then
  decimal digits of any script, with single underscores between digits. More than 4300
  digits are refused (the default of \<open>sys.set_int_max_str_digits\<close>). \<open>None\<close> is the
  \<open>ValueError\<close>.
\<close>

definition int_space :: "nat \<Rightarrow> bool" where
  "int_space c = ((9 \<le> c \<and> c \<le> 13) \<or> c = 32 \<or> (128 \<le> c \<and> py_isspace c))"

fun digits_value :: "ustr \<Rightarrow> nat \<Rightarrow> nat option" where
  "digits_value [] acc = Some acc"
| "digits_value (c # cs) acc =
     (case decimal_value c of
        Some d \<Rightarrow> digits_value cs (10 * acc + d)
      | None \<Rightarrow>
          if c = 95 \<and> cs \<noteq> [] \<and> is_digit (hd cs) then digits_value cs acc
          else None)"

definition unsigned_int :: "ustr \<Rightarrow> nat option" where
  "unsigned_int s =
     (if s \<noteq> [] \<and> is_digit (hd s) \<and> length (filter is_digit s) \<le> 4300
      then digits_value s 0 else None)"

definition py_int :: "ustr \<Rightarrow> int option" where
  "py_int s =
     (let t = rev (dropWhile int_space (rev (dropWhile int_space s))) in
      case t of
        [] \<Rightarrow> None
      | c # cs \<Rightarrow>
          if c = 45 then map_option (\<lambda>n. - int n) (unsigned_int cs)
          else if c = 43 then map_option int (unsigned_int cs)
          else map_option int (unsigned_int t))"

section \<open>Image candidates and their quality score\<close>

text \<open>
  The dictionaries built by \<open>extract_images\<close> all have the same six keys; every value is
  a string (\<open>get_attribute(...) or '0'\<close>).
\<close>

record image =
  img_url :: ustr
  img_alt :: ustr
  img_width :: ustr
  img_height :: ustr
  img_class :: ustr
  img_source :: ustr

text \<open>\<open>get_image_priority\<close>, the sort key local to \<open>sort_images_by_quality\<close>.\<close>

definition get_image_priority :: "(ustr \<Rightarrow> ustr) \<Rightarrow> image \<Rightarrow> int" where
  "get_image_priority lower img =
     (let url = lower (img_url img);
          priority = 0;
          priority = (if py_in (u ''_b.jpg'') url \<or> py_in (u ''_large'') url \<or> py_in (u ''_big'') url
                      then priority + 100 else priority);
          priority = (if py_in (u ''cbu01.alicdn.com'') url then priority + 50 else priority);
          priority = (if list_ex (\<lambda>dim. py_in (u dim) url) [''800'', ''600'', ''400'']
                      then priority + 30 else priority);
          priority = (if img_source img = u ''img_tag'' then priority + 20 else priority)
      in case py_int (img_width img) of
           None \<Rightarrow> priority
         | Some width \<Rightarrow>
             (case py_int (img_height img) of
                None \<Rightarrow> priority
              | Some height \<Rightarrow>
                  if width > 200 \<and> height > 200 then priority + 40
                  else if width > 100 \<and> height > 100 then priority + 20
                  else priority))"

text \<open>
  \<open>sorted(images, key=get_image_priority, reverse=True)\<close>: Python's sort is stable, also
  with \<open>reverse=True\<close>, so it is the stable sort by the negated key.
\<close>

definition sort_images_by_quality :: "(ustr \<Rightarrow> ustr) \<Rightarrow> image list \<Rightarrow> image list" where
  "sort_images_by_quality lower images = sort_key (\<lambda>img. - get_image_priority lower img) images"

section \<open>The human-behaviour simulator\<close>

text \<open>
  \<open>human_simulate\<close> draws a number of scroll steps (\<open>random.randint(2, 4)\<close>; 2 to 5 in
  \<open>enhanced_1688.py\<close>) and a scroll distance for each; \<open>ys\<close> is the list of the distances
  drawn. \<open>exec k y\<close> is what the \<open>k\<close>-th call \<open>driver.execute_script\<close> of the run does for
  the distance \<open>y\<close>. The source has no \<open>try\<close> around the call: a raise leaves the loop and
  the function.
\<close>

fun scroll_steps :: "(nat \<Rightarrow> int \<Rightarrow> unit attempt) \<Rightarrow> nat \<Rightarrow> int list \<Rightarrow> unit attempt" where
  "scroll_steps exec k [] = Returned ()"
| "scroll_steps exec k (y # ys) =
     (case exec k y of
        Raised \<Rightarrow> Raised
      | Returned _ \<Rightarrow> scroll_steps exec (Suc k) ys)"

definition human_simulate :: "(nat \<Rightarrow> int \<Rightarrow> unit attempt) \<Rightarrow> int list \<Rightarrow> unit attempt" where
  "human_simulate exec ys = scroll_steps exec 0 ys"

text \<open>A browser whose script execution fails (the window was closed, say).\<close>

definition broken_exec :: "nat \<Rightarrow> int \<Rightarrow> unit attempt" where
  "broken_exec k y = Raised"

definition steady_exec :: "nat \<Rightarrow> int \<Rightarrow> unit attempt" where
  "steady_exec k y = Returned ()"

section \<open>The page as the browser shows it\<close>

text \<open>
  A \<open>WebElement\<close>: its \<open>text\<close> property, \<open>get_attribute(name)\<close> (which returns a string
  or \<open>None\<close>) and \<open>find_elements(By.TAG_NAME, tag)\<close>. Each of them can raise (a stale
  element, a closed session).
\<close>

datatype element =
  Element (el_text: "ustr attempt")
          (el_attr: "string \<Rightarrow> ustr option attempt")
          (el_find: "string \<Rightarrow> element list attempt")

text \<open>
  What the \<open>driver\<close> answers while one page is open: \<open>find_element\<close> and \<open>find_elements\<close>
  by CSS selector and by tag name, \<open>find_elements\<close> by the XPath
  \<open>//*[contains(text(), 'keyword')]\<close> (indexed by the keyword), \<open>title\<close>, \<open>page_source\<close>
  and \<open>current_url\<close>. \<open>find_element\<close> raises \<open>NoSuchElementException\<close> when nothing
  matches.
\<close>

record page =
  find_element_css :: "string \<Rightarrow> element attempt"
  find_elements_css :: "string \<Rightarrow> element list attempt"
  find_element_tag :: "string \<Rightarrow> element attempt"
  find_elements_tag :: "string \<Rightarrow> element list attempt"
  find_elements_text :: "ustr \<Rightarrow> element list attempt"
  page_title :: "ustr attempt"
  page_source :: "ustr attempt"
  current_url :: "ustr attempt"

text \<open>An element that only has a text, and a page on which nothing is found.\<close>

definition text_element :: "ustr \<Rightarrow> element" where
  "text_element t = Element (Returned t) (\<lambda>a. Returned None) (\<lambda>tag. Returned [])"

definition blank_page :: page where
  "blank_page =
     \<lparr> find_element_css = (\<lambda>s. Raised),
       find_elements_css = (\<lambda>s. Returned []),
       find_element_tag = (\<lambda>s. Raised),
       find_elements_tag = (\<lambda>s. Returned []),
       find_elements_text = (\<lambda>k. Returned []),
       page_title = Returned [],
       page_source = Returned [],
       current_url = Returned [] \<rparr>"

section \<open>The anti-bot gate\<close>

definition captcha_keywords :: "ustr list" where
  "captcha_keywords =
     [[39564, 35777, 30721], u ''captcha'', [28369, 21160, 39564, 35777],
      [28857, 20987, 39564, 35777], [25302, 21160]]"

text \<open>The list of \<open>batch_1688.py\<close> and \<open>enhanced_1688.py\<close> has one more keyword.\<close>

definition captcha_keywords_batch :: "ustr list" where
  "captcha_keywords_batch = captcha_keywords @ [u ''security'']"

text \<open>
  \<open>wait_and_handle_captcha\<close>. \<open>stdin k\<close> is what the \<open>k\<close>-th prompt does, the two
  \<open>print\<close> calls followed by \<open>input()\<close>: it returns once the operator has pressed
  Enter, or raises (\<open>EOFError\<close> on a closed standard input, an encoding error of the
  output). The loop body stands in a bare \<open>try ... except: pass\<close>, so a raise of the
  element query or of the prompt goes on with the next keyword. The result is the
  returned boolean and the number of prompts made so far.
\<close>

fun captcha_scan :: "page \<Rightarrow> (nat \<Rightarrow> unit attempt) \<Rightarrow> nat \<Rightarrow> ustr list \<Rightarrow> bool \<times> nat" where
  "captcha_scan pg stdin k [] = (False, k)"
| "captcha_scan pg stdin k (keyword # rest) =
     (case find_elements_text pg keyword of
        Raised \<Rightarrow> captcha_scan pg stdin k rest
      | Returned elements \<Rightarrow>
          if elements \<noteq> [] then
            (case stdin k of
               Returned _ \<Rightarrow> (True, Suc k)
             | Raised \<Rightarrow> captcha_scan pg stdin (Suc k) rest)
          else captcha_scan pg stdin k rest)"

definition wait_and_handle_captcha :: "ustr list \<Rightarrow> page \<Rightarrow> (nat \<Rightarrow> unit attempt) \<Rightarrow> bool \<times> nat" where
  "wait_and_handle_captcha keywords pg stdin = captcha_scan pg stdin 0 keywords"

text \<open>
  The keywords whose query finds an element: the ones for which \<open>input()\<close> is called.
\<close>

definition hit :: "page \<Rightarrow> ustr \<Rightarrow> bool" where
  "hit pg keyword =
     (case find_elements_text pg keyword of Raised \<Rightarrow> False | Returned elements \<Rightarrow> elements \<noteq> [])"

definition hits :: "page \<Rightarrow> ustr list \<Rightarrow> ustr list" where
  "hits pg kws = filter (hit pg) kws"

text \<open>
  The document behind a page, as far as the keyword query reads it: text nodes, and
  elements with their child nodes (the text of scripts and of hidden elements is there
  too). The XPath \<open>//*[contains(text(), 'keyword')]\<close> selects, in document order, the
  elements whose first text-node child contains the keyword: XPath 1.0 turns the node
  set \<open>text()\<close> into the string of its first node, and the empty node set into the empty
  string. \<open>page_contains\<close> says that some text node of the document contains the phrase.
\<close>

datatype node = Text ustr | Tag "node list"

fun first_text :: "node list \<Rightarrow> ustr" where
  "first_text [] = []"
| "first_text (Text t # rest) = t"
| "first_text (Tag cs # rest) = first_text rest"

fun all_elements :: "node \<Rightarrow> node list" where
  "all_elements (Text t) = []"
| "all_elements (Tag cs) = Tag cs # concat (map all_elements cs)"

fun all_texts :: "node \<Rightarrow> ustr list" where
  "all_texts (Text t) = [t]"
| "all_texts (Tag cs) = concat (map all_texts cs)"

definition selected :: "ustr \<Rightarrow> node \<Rightarrow> bool" where
  "selected keyword n = (case n of Text t \<Rightarrow> False | Tag cs \<Rightarrow> py_in keyword (first_text cs))"

definition xpath_contains_text :: "node \<Rightarrow> ustr \<Rightarrow> node list" where
  "xpath_contains_text doc keyword = filter (selected keyword) (all_elements doc)"

definition page_contains :: "node \<Rightarrow> ustr \<Rightarrow> bool" where
  "page_contains doc keyword = list_ex (py_in keyword) (all_texts doc)"

text \<open>
  The element object of a node, and what it means that a page answers the keyword
  queries from a document: each query raises or returns the selected elements.
\<close>

definition node_element :: "node \<Rightarrow> element" where
  "node_element n = Element (Returned (concat (all_texts n))) (\<lambda>a. Returned None) (\<lambda>tag. Returned [])"

definition answers_from :: "node \<Rightarrow> page \<Rightarrow> bool" where
  "answers_from doc pg =
     (\<forall>keyword. find_elements_text pg keyword = Raised
                \<or> find_elements_text pg keyword
                    = Returned (map node_element (xpath_contains_text doc keyword)))"

definition operator_confirms :: "nat \<Rightarrow> unit attempt" where
  "operator_confirms k = Returned ()"

definition captcha_page :: page where
  "captcha_page =
     blank_page \<lparr> find_elements_text :=
       (\<lambda>k. if k = u ''captcha'' then Returned [text_element (u ''captcha required'')]
            else Returned []) \<rparr>"

section \<open>The field extractors\<close>

subsection \<open>Title\<close>

definition title_selectors :: "string list" where
  \<open>title_selectors =
     [''h1'', ''.offer-title'', ''.d-title'', ''.detail-title'',
      ''[class*="title"]'', ''[class*="name"]'', ''.product-name'']\<close>

definition title_selectors_batch :: "string list" where
  \<open>title_selectors_batch = title_selectors @ [''title'', ''[data-spm-anchor-id*="title"]'']\<close>

text \<open>
  What one selector yields: the stripped text of the first matching element when it has
  more than 3 characters; a raise of the query or of \<open>text\<close> is the \<open>continue\<close>.
\<close>

definition selector_text :: "page \<Rightarrow> nat \<Rightarrow> string \<Rightarrow> ustr option" where
  "selector_text pg n selector =
     (case find_element_css pg selector of
        Raised \<Rightarrow> None
      | Returned e \<Rightarrow>
          (case el_text e of
             Raised \<Rightarrow> None
           | Returned t \<Rightarrow>
               (let text = py_strip t in
                if text \<noteq> [] \<and> length text > n then Some text else None)))"

fun first_selector_text :: "page \<Rightarrow> nat \<Rightarrow> string list \<Rightarrow> ustr option" where
  "first_selector_text pg n [] = None"
| "first_selector_text pg n (selector # rest) =
     (case selector_text pg n selector of
        Some text \<Rightarrow> Some text
      | None \<Rightarrow> first_selector_text pg n rest)"

definition extract_title :: "string list \<Rightarrow> page \<Rightarrow> ustr option" where
  "extract_title selectors pg =
     (case first_selector_text pg 3 selectors of
        Some text \<Rightarrow> Some text
      | None \<Rightarrow>
          (case page_title pg of
             Raised \<Rightarrow> None
           | Returned t \<Rightarrow> if t \<noteq> [] \<and> \<not> py_in (u ''1688'') t then Some t else None))"

definition site_title_page :: page where
  "site_title_page = blank_page \<lparr> page_title := Returned (u ''1688.com'') \<rparr>"

definition item_title_page :: page where
  "item_title_page = blank_page \<lparr> page_title := Returned (u ''Steel bolt M8'') \<rparr>"

subsection \<open>Supplier\<close>

definition supplier_selectors :: "string list" where
  \<open>supplier_selectors =
     [''.company-name'', ''.supplier-name'', ''.shop-name'',
      ''[class*="company"]'', ''[class*="supplier"]'', ''[class*="shop"]'']\<close>

definition extract_supplier :: "page \<Rightarrow> ustr option" where
  "extract_supplier pg = first_selector_text pg 2 supplier_selectors"

subsection \<open>Regular expressions of the price patterns\<close>

text \<open>
  The price patterns are sequences of two kinds of items: a literal character, and a
  character class repeated one or more times (greedy). \<open>matches items s\<close> lists the
  lengths of the prefixes of \<open>s\<close> that the sequence matches, in the order in which a
  backtracking matcher tries them: the longest repetition first. \<open>\d\<close> is the class
  \<open>is_digit\<close> of all decimal digits.
\<close>

datatype item = Lit nat | Plus "nat \<Rightarrow> bool"

fun matches :: "item list \<Rightarrow> ustr \<Rightarrow> nat list" where
  "matches [] s = [0]"
| "matches (Lit c # items) s =
     (case s of
        [] \<Rightarrow> []
      | x # xs \<Rightarrow> if x = c then map Suc (matches items xs) else [])"
| "matches (Plus cls # items) s =
     concat (map (\<lambda>k. map (\<lambda>n. k + n) (matches items (drop k s)))
                 (rev [1 ..< Suc (length (takeWhile cls s))]))"

text \<open>
  \<open>re.findall(pattern, s)\<close> for a pattern without groups: the leftmost match at each
  position, the scan going on behind it. (\<open>max 1\<close> only matters for the empty pattern,
  which the program does not use.)
\<close>

function findall :: "item list \<Rightarrow> ustr \<Rightarrow> ustr list" where
  "findall items s =
     (case matches items s of
        [] \<Rightarrow> (case s of [] \<Rightarrow> [] | x # xs \<Rightarrow> findall items xs)
      | k # ks \<Rightarrow> take k s # (if s = [] then [] else findall items (drop (max 1 k) s)))"
  by pat_completeness auto
termination
  by (relation "measure (\<lambda>(items, s). length s)") auto

declare findall.simps [simp del]

declare matches.simps [simp del]

definition money_class :: "nat \<Rightarrow> bool" where
  "money_class c = (is_digit c \<or> c = 44 \<or> c = 46)"

text \<open>
  The five patterns: fullwidth yen sign (U+FFE5) and yen sign (U+00A5) followed by
  \<open>[\d,.]+\<close>; \<open>\d+\.\d+\<close> followed by the character U+5143; \<open>\d+\.\d+-\d+\.\d+\<close>;
  \<open>\d+\.\d+\<close> followed by the character U+8D77.
\<close>

definition price_patterns :: "item list list" where
  "price_patterns =
     [[Lit 65509, Plus money_class],
      [Lit 165, Plus money_class],
      [Plus is_digit, Lit 46, Plus is_digit, Lit 20803],
      [Plus is_digit, Lit 46, Plus is_digit, Lit 45, Plus is_digit, Lit 46, Plus is_digit],
      [Plus is_digit, Lit 46, Plus is_digit, Lit 36215]]"

subsection \<open>Price\<close>

definition price_selectors :: "string list" where
  \<open>price_selectors =
     [''.price'', ''.offer-price'', ''.d-price'', ''.unit-price'',
      ''[class*="price"]'', ''.price-range'', ''.price-original'', ''.price-now'']\<close>

definition price_selectors_batch :: "string list" where
  \<open>price_selectors_batch =
     [''.price'', ''.offer-price'', ''.d-price'', ''.unit-price'',
      ''[class*="price"]'', ''[data-testid*="price"]'',
      ''.price-range'', ''.price-original'', ''.price-now'']\<close>

text \<open>The characters looked for in a selector text: the two yen signs, U+5143 and the dot.\<close>

definition price_markers :: "ustr list" where
  "price_markers = [[65509], [165], [20803], [46]]"

definition is_price_text :: "ustr \<Rightarrow> bool" where
  "is_price_text text = (text \<noteq> [] \<and> list_ex (\<lambda>char. py_in char text) price_markers)"

text \<open>
  The inner loop over the elements of one selector. A raise of \<open>element.text\<close> ends the
  loop (the \<open>except: continue\<close> of the selector loop); what was appended before stays.
\<close>

fun price_elements :: "element list \<Rightarrow> ustr list \<Rightarrow> ustr list" where
  "price_elements [] prices = prices"
| "price_elements (e # es) prices =
     (case el_text e of
        Raised \<Rightarrow> prices
      | Returned t \<Rightarrow>
          (let text = py_strip t in
           price_elements es (if is_price_text text then prices @ [text] else prices)))"

fun price_selector_loop :: "page \<Rightarrow> string list \<Rightarrow> ustr list \<Rightarrow> ustr list" where
  "price_selector_loop pg [] prices = prices"
| "price_selector_loop pg (selector # rest) prices =
     (case find_elements_css pg selector of
        Raised \<Rightarrow> price_selector_loop pg rest prices
      | Returned elements \<Rightarrow> price_selector_loop pg rest (price_elements elements prices))"

text \<open>
  What one selector contributes, said without the loop: of the elements that come before
  the first one whose text cannot be read, the stripped texts that contain a currency
  marker or a dot, in the order of the elements. \<open>selector_price_texts\<close> is the same for
  a list of selectors; a selector whose query raises contributes nothing.
\<close>

definition readable :: "element \<Rightarrow> bool" where
  "readable e = (el_text e \<noteq> Raised)"

definition stripped_text :: "element \<Rightarrow> ustr" where
  "stripped_text e = py_strip (case el_text e of Raised \<Rightarrow> [] | Returned t \<Rightarrow> t)"

definition element_price_texts :: "element list \<Rightarrow> ustr list" where
  "element_price_texts es = filter is_price_text (map stripped_text (takeWhile readable es))"

definition selector_price_texts :: "page \<Rightarrow> string list \<Rightarrow> ustr list" where
  "selector_price_texts pg selectors =
     concat (map (\<lambda>selector. case find_elements_css pg selector of
                                Raised \<Rightarrow> []
                              | Returned elements \<Rightarrow> element_price_texts elements)
                 selectors)"

text \<open>\<open>driver.find_element(By.TAG_NAME, "body").text\<close>.\<close>

definition body_text :: "page \<Rightarrow> ustr attempt" where
  "body_text pg =
     (case find_element_tag pg ''body'' of
        Raised \<Rightarrow> Raised
      | Returned b \<Rightarrow> el_text b)"

definition regex_prices :: "ustr \<Rightarrow> ustr list" where
  "regex_prices page_text = concat (map (\<lambda>pattern. findall pattern page_text) price_patterns)"

text \<open>
  \<open>list(set(prices))\<close> lists each price once, in the iteration order of a Python set of
  strings, which depends on the hash seed of the process. The order is the parameter
  \<open>set_list\<close>; the theorems assume of it only that it lists every element once.
\<close>

definition lists_each_once :: "(ustr list \<Rightarrow> ustr list) \<Rightarrow> bool" where
  "lists_each_once set_list = (\<forall>xs. distinct (set_list xs) \<and> set (set_list xs) = set xs)"

definition unique_prices :: "(ustr list \<Rightarrow> ustr list) \<Rightarrow> ustr list \<Rightarrow> ustr list option" where
  "unique_prices set_list prices =
     (if prices \<noteq> [] then Some (take 3 (set_list prices)) else None)"

text \<open>
  \<open>SimpleBatch1688.extract_price\<close>: the body text is read inside \<open>try ... except: pass\<close>.
  \<open>None\<close> is Python's \<open>None\<close>.
\<close>

definition collected_prices :: "page \<Rightarrow> ustr list" where
  "collected_prices pg =
     (let prices = price_selector_loop pg price_selectors [] in
      case body_text pg of
        Raised \<Rightarrow> prices
      | Returned page_text \<Rightarrow> prices @ regex_prices page_text)"

definition extract_price :: "(ustr list \<Rightarrow> ustr list) \<Rightarrow> page \<Rightarrow> ustr list option" where
  "extract_price set_list pg = unique_prices set_list (collected_prices pg)"

text \<open>
  \<open>Batch1688Crawler.extract_price\<close>: the body text is read outside any \<open>try\<close>, so a raise
  there leaves the function.
\<close>

definition extract_price_batch ::
  "(ustr list \<Rightarrow> ustr list) \<Rightarrow> page \<Rightarrow> ustr list option attempt" where
  "extract_price_batch set_list pg =
     (let prices = price_selector_loop pg price_selectors_batch [] in
      case body_text pg of
        Raised \<Rightarrow> Raised
      | Returned page_text \<Rightarrow> Returned (unique_prices set_list (prices @ regex_prices page_text)))"

text \<open>A page whose body text is \<open>t\<close> and on which no selector finds anything.\<close>

definition body_page :: "ustr \<Rightarrow> page" where
  "body_page t =
     blank_page \<lparr> find_element_tag :=
       (\<lambda>tag. if tag = ''body'' then Returned (text_element t) else Raised) \<rparr>"

text \<open>The strings of the spec's example: yen sign, then the digits.\<close>

definition yen_199 :: ustr where
  "yen_199 = 165 # u ''199.00''"

definition yen_159 :: ustr where
  "yen_159 = 165 # u ''159.00''"

definition yen_179 :: ustr where
  "yen_179 = 165 # u ''179.00''"

definition yen_range :: ustr where
  "yen_range = yen_159 @ u ''-'' @ yen_179"

definition price_example_text :: ustr where
  "price_example_text = yen_199 @ u '' '' @ yen_range"

subsection \<open>Specifications\<close>

text \<open>
  The dictionary \<open>specs\<close> is an association list in insertion order; \<open>specs[key] = value\<close>
  is \<open>AList.update\<close>, which overwrites the value of a key already there and appends a
  new key. The three loops stand in one \<open>try ... except: pass\<close>: a raise ends the whole
  scan and the entries made so far stay. The boolean tells whether the scan goes on.
\<close>

fun spec_rows :: "element list \<Rightarrow> (ustr \<times> ustr) list \<Rightarrow> (ustr \<times> ustr) list \<times> bool" where
  "spec_rows [] specs = (specs, True)"
| "spec_rows (row # rows) specs =
     (case el_find row ''td'' of
        Raised \<Rightarrow> (specs, False)
      | Returned cells \<Rightarrow>
          if length cells \<ge> 2 then
            (case el_text (cells ! 0) of
               Raised \<Rightarrow> (specs, False)
             | Returned t0 \<Rightarrow>
                 (case el_text (cells ! 1) of
                    Raised \<Rightarrow> (specs, False)
                  | Returned t1 \<Rightarrow>
                      (let key = py_strip t0; value = py_strip t1 in
                       spec_rows rows
                         (if key \<noteq> [] \<and> value \<noteq> [] then AList.update key value specs
                          else specs))))
          else spec_rows rows specs)"

fun spec_tables :: "element list \<Rightarrow> (ustr \<times> ustr) list \<Rightarrow> (ustr \<times> ustr) list" where
  "spec_tables [] specs = specs"
| "spec_tables (table # tables) specs =
     (case el_find table ''tr'' of
        Raised \<Rightarrow> specs
      | Returned rows \<Rightarrow>
          (case spec_rows rows specs of
             (specs', True) \<Rightarrow> spec_tables tables specs'
           | (specs', False) \<Rightarrow> specs'))"

definition extract_specifications :: "page \<Rightarrow> (ustr \<times> ustr) list" where
  "extract_specifications pg =
     (let specs = (case find_elements_tag pg ''table'' of
                     Raised \<Rightarrow> []
                   | Returned tables \<Rightarrow> spec_tables tables [])
      in if specs \<noteq> [] then specs else [])"

text \<open>
  The rows the scan reads completely, in scan order, as the pair of the texts of their
  first two cells: rows with fewer than two cells are passed over, and the scan ends at
  the first raise.
\<close>

fun scanned_rows :: "element list \<Rightarrow> (ustr \<times> ustr) list \<times> bool" where
  "scanned_rows [] = ([], True)"
| "scanned_rows (row # rows) =
     (case el_find row ''td'' of
        Raised \<Rightarrow> ([], False)
      | Returned cells \<Rightarrow>
          if length cells \<ge> 2 then
            (case el_text (cells ! 0) of
               Raised \<Rightarrow> ([], False)
             | Returned t0 \<Rightarrow>
                 (case el_text (cells ! 1) of
                    Raised \<Rightarrow> ([], False)
                  | Returned t1 \<Rightarrow>
                      (case scanned_rows rows of (ps, ok) \<Rightarrow> ((t0, t1) # ps, ok))))
          else scanned_rows rows)"

fun scanned_tables :: "element list \<Rightarrow> (ustr \<times> ustr) list" where
  "scanned_tables [] = []"
| "scanned_tables (table # tables) =
     (case el_find table ''tr'' of
        Raised \<Rightarrow> []
      | Returned rows \<Rightarrow>
          (case scanned_rows rows of
             (ps, True) \<Rightarrow> ps @ scanned_tables tables
           | (ps, False) \<Rightarrow> ps))"

definition scanned :: "page \<Rightarrow> (ustr \<times> ustr) list" where
  "scanned pg =
     (case find_elements_tag pg ''table'' of
        Raised \<Rightarrow> []
      | Returned tables \<Rightarrow> scanned_tables tables)"

text \<open>The rows that bind the key \<open>k\<close>: stripped first cell \<open>k\<close>, key and value not empty.\<close>

definition binds :: "ustr \<Rightarrow> ustr \<times> ustr \<Rightarrow> bool" where
  "binds k r = (py_strip (fst r) = k \<and> py_strip (fst r) \<noteq> [] \<and> py_strip (snd r) \<noteq> [])"

text \<open>A page with one table, given by the cell texts of its rows.\<close>

definition row_element :: "ustr list \<Rightarrow> element" where
  "row_element cells =
     Element (Returned []) (\<lambda>a. Returned None)
       (\<lambda>tag. if tag = ''td'' then Returned (map text_element cells) else Returned [])"

definition table_element :: "ustr list list \<Rightarrow> element" where
  "table_element rows =
     Element (Returned []) (\<lambda>a. Returned None)
       (\<lambda>tag. if tag = ''tr'' then Returned (map row_element rows) else Returned [])"

definition table_page :: "ustr list list \<Rightarrow> page" where
  "table_page rows =
     blank_page \<lparr> find_elements_tag :=
       (\<lambda>tag. if tag = ''table'' then Returned [table_element rows] else Returned []) \<rparr>"

text \<open>The spec's example: the key U+989C U+8272 bound first to U+7EA2, then to U+84DD.\<close>

definition colour_rows :: "ustr list list" where
  "colour_rows = [[[39068, 33394], [32418]], [[39068, 33394], [34013]]]"

subsection \<open>Minimum order quantity\<close>

text \<open>
  \<open>extract_moq\<close> searches the body text for each keyword followed by a colon (ASCII or
  fullwidth), whitespace and digits, and returns the digits of the first keyword that is
  found. \<open>search keyword text\<close> stands for \<open>re.search\<close> of the pattern built from the
  keyword, followed by \<open>group(1)\<close>; \<open>None\<close> when there is no match.
\<close>

definition moq_keywords :: "ustr list" where
  "moq_keywords = [[36215, 35746, 37327], [26368, 23567], u ''MOQ'', [36215, 25209]]"

fun moq_search :: "(ustr \<Rightarrow> ustr \<Rightarrow> ustr option) \<Rightarrow> ustr \<Rightarrow> ustr list \<Rightarrow> ustr option" where
  "moq_search search page_text [] = None"
| "moq_search search page_text (keyword # rest) =
     (case search keyword page_text of
        Some moq_value \<Rightarrow> Some moq_value
      | None \<Rightarrow> moq_search search page_text rest)"

definition extract_moq :: "(ustr \<Rightarrow> ustr \<Rightarrow> ustr option) \<Rightarrow> page \<Rightarrow> ustr option" where
  "extract_moq search pg =
     (case body_text pg of
        Raised \<Rightarrow> None
      | Returned page_text \<Rightarrow> moq_search search page_text moq_keywords)"

section \<open>The image collector\<close>

text \<open>
  The state of \<open>extract_images\<close>: the list \<open>images\<close> and the set \<open>seen_urls\<close>.
\<close>

type_synonym collector = "image list \<times> ustr set"

definition image_exts :: "string list" where
  "image_exts = [''.jpg'', ''.jpeg'', ''.png'', ''.webp'', ''.gif'']"

definition has_ext :: "string list \<Rightarrow> ustr \<Rightarrow> bool" where
  "has_ext exts s = list_ex (\<lambda>ext. py_in (u ext) s) exts"

text \<open>The attribute loop of the first pass; a raise of \<open>get_attribute\<close> leaves it.\<close>

fun tag_image_url :: "(ustr \<Rightarrow> ustr) \<Rightarrow> element \<Rightarrow> string list \<Rightarrow> ustr option attempt" where
  "tag_image_url lower img [] = Returned None"
| "tag_image_url lower img (attr # rest) =
     (case el_attr img attr of
        Raised \<Rightarrow> Raised
      | Returned None \<Rightarrow> tag_image_url lower img rest
      | Returned (Some url) \<Rightarrow>
          if url \<noteq> [] \<and> startswith url (u ''http'') then
            (if has_ext (image_exts @ [''.bmp'']) (lower url) then Returned (Some url)
             else if py_in (u ''alicdn.com'') url \<or> py_in (u ''img.alicdn.com'') url
               then Returned (Some url)
             else tag_image_url lower img rest)
          else tag_image_url lower img rest)"

definition tag_attributes :: "string list" where
  "tag_attributes = [''src'', ''data-src'', ''data-original'', ''data-lazy'', ''data-img'', ''data-url'']"

text \<open>\<open>get_best_image_url\<close>: each attribute is read in its own \<open>try\<close>.\<close>

fun best_image_url :: "(ustr \<Rightarrow> ustr) \<Rightarrow> element \<Rightarrow> string list \<Rightarrow> ustr option" where
  "best_image_url lower img [] = None"
| "best_image_url lower img (attr # rest) =
     (case el_attr img attr of
        Raised \<Rightarrow> best_image_url lower img rest
      | Returned None \<Rightarrow> best_image_url lower img rest
      | Returned (Some url) \<Rightarrow>
          if url \<noteq> [] \<and> startswith url (u ''http'') then
            (if py_in (u ''_b.jpg'') url \<or> py_in (u ''_large'') url \<or> py_in (u ''_big'') url
               then Some url
             else if has_ext image_exts (lower url) then Some url
             else if py_in (u ''alicdn.com'') url then Some url
             else best_image_url lower img rest)
          else best_image_url lower img rest)"

definition get_best_image_url :: "(ustr \<Rightarrow> ustr) \<Rightarrow> element \<Rightarrow> ustr option" where
  "get_best_image_url lower img =
     best_image_url lower img
       [''data-original'', ''data-src'', ''data-lazy'', ''src'', ''data-img'', ''data-url'']"

text \<open>
  \<open>int(img_element.get_attribute(name) or 0)\<close>; \<open>None\<close> when the attribute read or the
  conversion raises.
\<close>

definition attr_int :: "element \<Rightarrow> string \<Rightarrow> int option" where
  "attr_int e name =
     (case el_attr e name of
        Raised \<Rightarrow> None
      | Returned None \<Rightarrow> Some 0
      | Returned (Some s) \<Rightarrow> if s = [] then Some 0 else py_int s)"

definition exclude_patterns :: "string list" where
  "exclude_patterns =
     [''icon'', ''logo'', ''btn'', ''button'', ''arrow'', ''star'', ''rating'',
      ''header'', ''footer'', ''nav'', ''menu'', ''banner'', ''ad'',
      ''sprite'', ''background'', ''bg'', ''decoration'']"

text \<open>
  The size test of \<open>is_product_image\<close>: \<open>True\<close> when it rejects the element. It stands in
  a \<open>try ... except: pass\<close>, so a raise rejects nothing.
\<close>

definition too_small :: "element \<Rightarrow> bool" where
  "too_small e =
     (case attr_int e ''width'' of
        None \<Rightarrow> False
      | Some width \<Rightarrow>
          (case attr_int e ''height'' of
             None \<Rightarrow> False
           | Some height \<Rightarrow>
               if width > 0 \<and> height > 0 \<and> (width < 50 \<or> height < 50) then True
               else if width > 0 \<and> height > 0 \<and> width * height < 2500 then True
               else False))"

text \<open>\<open>is_product_image\<close>, always called with the element.\<close>

definition is_product_image :: "(ustr \<Rightarrow> ustr) \<Rightarrow> ustr \<Rightarrow> element \<Rightarrow> bool" where
  "is_product_image lower url e =
     (let url_lower = lower url in
      if has_ext exclude_patterns url_lower then False
      else if too_small e then False
      else if py_in (u ''alicdn.com'') url then True
      else if has_ext [''.jpg'', ''.jpeg'', ''.png'', ''.webp''] url_lower then True
      else False)"

definition is_valid_product_image_url :: "(ustr \<Rightarrow> ustr) \<Rightarrow> ustr \<Rightarrow> bool" where
  "is_valid_product_image_url lower url =
     (if url = [] \<or> length url < 20 then False
      else if \<not> startswith url (u ''https://'') then False
      else
        (let url_lower = lower url in
         if \<not> (has_ext image_exts url_lower \<or> py_in (u ''alicdn.com'') url_lower) then False
         else if has_ext [''icon'', ''logo'', ''btn'', ''arrow'', ''star'', ''sprite''] url_lower
           then False
         else True))"

text \<open>\<open>img.get_attribute(name) or default\<close>.\<close>

definition attr_or :: "element \<Rightarrow> string \<Rightarrow> ustr \<Rightarrow> ustr attempt" where
  "attr_or e name d =
     (case el_attr e name of
        Raised \<Rightarrow> Raised
      | Returned None \<Rightarrow> Returned d
      | Returned (Some s) \<Rightarrow> Returned (if s = [] then d else s))"

text \<open>The dictionary of one image; its four attribute reads can raise.\<close>

definition make_image :: "element \<Rightarrow> ustr \<Rightarrow> ustr \<Rightarrow> image attempt" where
  "make_image e url origin =
     (case attr_or e ''alt'' [] of
        Raised \<Rightarrow> Raised
      | Returned alt \<Rightarrow>
     (case attr_or e ''width'' (u ''0'') of
        Raised \<Rightarrow> Raised
      | Returned width \<Rightarrow>
     (case attr_or e ''height'' (u ''0'') of
        Raised \<Rightarrow> Raised
      | Returned height \<Rightarrow>
     (case attr_or e ''class'' [] of
        Raised \<Rightarrow> Raised
      | Returned class \<Rightarrow>
          Returned \<lparr> img_url = url, img_alt = alt, img_width = width, img_height = height,
                     img_class = class, img_source = origin \<rparr>))))"

text \<open>First pass: one \<open>img\<close> element; any raise skips the element.\<close>

definition tag_step :: "(ustr \<Rightarrow> ustr) \<Rightarrow> element \<Rightarrow> collector \<Rightarrow> collector" where
  "tag_step lower img st =
     (case tag_image_url lower img tag_attributes of
        Raised \<Rightarrow> st
      | Returned None \<Rightarrow> st
      | Returned (Some url) \<Rightarrow>
          if url \<notin> snd st \<and> is_product_image lower url img then
            (case make_image img url (u ''img_tag'') of
               Raised \<Rightarrow> st
             | Returned d \<Rightarrow> (fst st @ [d], insert url (snd st)))
          else st)"

text \<open>
  Second pass: the URLs found in the page source by the three patterns, matched with
  \<open>re.IGNORECASE\<close>. \<open>findall pattern source\<close> stands for that call of \<open>re.findall\<close>.
\<close>

datatype alicdn_pattern = Any_alicdn | Cbu_alicdn | Img_alicdn

definition alicdn_patterns :: "alicdn_pattern list" where
  "alicdn_patterns = [Any_alicdn, Cbu_alicdn, Img_alicdn]"

definition regex_step :: "(ustr \<Rightarrow> ustr) \<Rightarrow> ustr \<Rightarrow> collector \<Rightarrow> collector" where
  "regex_step lower url st =
     (if url \<notin> snd st \<and> is_valid_product_image_url lower url then
        (fst st @ [\<lparr> img_url = url, img_alt = [], img_width = u ''0'', img_height = u ''0'',
                     img_class = [], img_source = u ''regex_extract'' \<rparr>],
         insert url (snd st))
      else st)"

definition regex_pass ::
  "(ustr \<Rightarrow> ustr) \<Rightarrow> (alicdn_pattern \<Rightarrow> ustr \<Rightarrow> ustr list) \<Rightarrow> page \<Rightarrow> collector \<Rightarrow> collector" where
  "regex_pass lower findall_i pg st =
     (case page_source pg of
        Raised \<Rightarrow> st
      | Returned source \<Rightarrow>
          fold (\<lambda>pattern. fold (regex_step lower) (findall_i pattern source)) alicdn_patterns st)"

text \<open>
  Third pass: the \<open>img\<close> elements inside the gallery containers. A raise anywhere while
  one selector is handled goes on with the next selector; the boolean tells whether the
  loops of the selector go on.
\<close>

definition image_containers :: "string list" where
  \<open>image_containers =
     [''.offer-img'', ''.product-img'', ''.detail-img'', ''.gallery-img'',
      ''[class*="image"]'', ''[class*="photo"]'', ''[class*="pic"]'',
      ''.img-list'', ''.image-list'', ''.photo-list'']\<close>

fun container_imgs :: "(ustr \<Rightarrow> ustr) \<Rightarrow> string \<Rightarrow> element list \<Rightarrow> collector \<Rightarrow> collector \<times> bool" where
  "container_imgs lower selector [] st = (st, True)"
| "container_imgs lower selector (img # imgs) st =
     (case get_best_image_url lower img of
        None \<Rightarrow> container_imgs lower selector imgs st
      | Some url \<Rightarrow>
          if url \<notin> snd st then
            (case make_image img url (u ''container_'' @ u selector) of
               Raised \<Rightarrow> (st, False)
             | Returned d \<Rightarrow> container_imgs lower selector imgs (fst st @ [d], insert url (snd st)))
          else container_imgs lower selector imgs st)"

fun containers_loop :: "(ustr \<Rightarrow> ustr) \<Rightarrow> string \<Rightarrow> element list \<Rightarrow> collector \<Rightarrow> collector \<times> bool" where
  "containers_loop lower selector [] st = (st, True)"
| "containers_loop lower selector (container # rest) st =
     (case el_find container ''img'' of
        Raised \<Rightarrow> (st, False)
      | Returned imgs \<Rightarrow>
          (case container_imgs lower selector imgs st of
             (st', True) \<Rightarrow> containers_loop lower selector rest st'
           | (st', False) \<Rightarrow> (st', False)))"

definition container_step :: "(ustr \<Rightarrow> ustr) \<Rightarrow> page \<Rightarrow> string \<Rightarrow> collector \<Rightarrow> collector" where
  "container_step lower pg selector st =
     (case find_elements_css pg selector of
        Raised \<Rightarrow> st
      | Returned containers \<Rightarrow> fst (containers_loop lower selector containers st))"

text \<open>
  \<open>scroll_to_load_images\<close>. \<open>js k\<close> is what its \<open>k\<close>-th call of \<open>execute_script\<close> does;
  the two heights it reads are integers or \<open>null\<close>. Every raise (also the \<open>TypeError\<close> of
  a comparison or an addition with \<open>None\<close>) is caught by its \<open>try\<close>, so the function
  returns nothing, when it returns: the \<open>while\<close> loop has no bound of its own.
\<close>

datatype jsval = JNull | JInt int

partial_function (option) scroll_segments ::
  "(nat \<Rightarrow> jsval attempt) \<Rightarrow> nat \<Rightarrow> jsval \<Rightarrow> jsval \<Rightarrow> int \<Rightarrow> unit option" where
  "scroll_segments js k viewport_height page_height current_position =
     (case page_height of
        JNull \<Rightarrow> Some ()
      | JInt h \<Rightarrow>
          if current_position < h then
            (case js k of
               Raised \<Rightarrow> Some ()
             | Returned _ \<Rightarrow>
                 (case viewport_height of
                    JNull \<Rightarrow> Some ()
                  | JInt v \<Rightarrow>
                      scroll_segments js (Suc k) viewport_height page_height
                        (current_position + v)))
          else Some ())"

definition scroll_to_load_images :: "(nat \<Rightarrow> jsval attempt) \<Rightarrow> unit option" where
  "scroll_to_load_images js =
     (case js 0 of
        Raised \<Rightarrow> Some ()
      | Returned _ \<Rightarrow>
     (case js 1 of
        Raised \<Rightarrow> Some ()
      | Returned _ \<Rightarrow>
     (case js 2 of
        Raised \<Rightarrow> Some ()
      | Returned viewport_height \<Rightarrow>
     (case js 3 of
        Raised \<Rightarrow> Some ()
      | Returned page_height \<Rightarrow> scroll_segments js 4 viewport_height page_height 0))))"

text \<open>Fourth pass, on the \<open>img\<close> elements found after the scroll.\<close>

definition lazy_step :: "(ustr \<Rightarrow> ustr) \<Rightarrow> element \<Rightarrow> collector \<Rightarrow> collector" where
  "lazy_step lower img st =
     (case get_best_image_url lower img of
        None \<Rightarrow> st
      | Some url \<Rightarrow>
          if url \<notin> snd st \<and> is_product_image lower url img then
            (case make_image img url (u ''lazy_load'') of
               Raised \<Rightarrow> st
             | Returned d \<Rightarrow> (fst st @ [d], insert url (snd st)))
          else st)"

text \<open>
  The list \<open>images\<close> as it stands before the sort. \<open>pg\<close> answers the queries made before
  the scroll, \<open>pg'\<close> those made after it. \<open>None\<close>: the scroll never ends. \<open>Raised\<close>: one of
  the two \<open>find_elements\<close> calls for \<open>img\<close> raised, which the outer \<open>try\<close> catches.
\<close>

definition collect_images ::
  "(ustr \<Rightarrow> ustr) \<Rightarrow> (alicdn_pattern \<Rightarrow> ustr \<Rightarrow> ustr list) \<Rightarrow> (nat \<Rightarrow> jsval attempt) \<Rightarrow> page \<Rightarrow> page
     \<Rightarrow> image list attempt option" where
  "collect_images lower findall_i js pg pg' =
     (case find_elements_tag pg ''img'' of
        Raised \<Rightarrow> Some Raised
      | Returned img_elements \<Rightarrow>
          (let st = fold (tag_step lower) img_elements ([], {});
               st = regex_pass lower findall_i pg st;
               st = fold (container_step lower pg) image_containers st
           in case scroll_to_load_images js of
                None \<Rightarrow> None
              | Some _ \<Rightarrow>
                  (case find_elements_tag pg' ''img'' of
                     Raised \<Rightarrow> Some Raised
                   | Returned new_img_elements \<Rightarrow>
                       Some (Returned (fst (fold (lazy_step lower) new_img_elements st))))))"

definition extract_images ::
  "(ustr \<Rightarrow> ustr) \<Rightarrow> (alicdn_pattern \<Rightarrow> ustr \<Rightarrow> ustr list) \<Rightarrow> (nat \<Rightarrow> jsval attempt) \<Rightarrow> page \<Rightarrow> page
     \<Rightarrow> image list option" where
  "extract_images lower findall_i js pg pg' =
     (case collect_images lower findall_i js pg pg' of
        None \<Rightarrow> None
      | Some Raised \<Rightarrow> Some []
      | Some (Returned images) \<Rightarrow>
          Some (if images \<noteq> [] then sort_images_by_quality lower images else []))"

section \<open>The item pipeline\<close>

text \<open>
  The values put into a product dictionary and written out as JSON. A dictionary is the
  list of its items in insertion order.
\<close>

datatype pyval =
  PNone | PInt int | PStr ustr | PList "pyval list" | PDict "(ustr \<times> pyval) list"


definition str_or_none :: "ustr option \<Rightarrow> pyval" where
  "str_or_none r = (case r of None \<Rightarrow> PNone | Some s \<Rightarrow> PStr s)"

definition strs_or_none :: "ustr list option \<Rightarrow> pyval" where
  "strs_or_none r = (case r of None \<Rightarrow> PNone | Some xs \<Rightarrow> PList (map PStr xs))"

definition image_dict :: "image \<Rightarrow> pyval" where
  "image_dict img =
     PDict [(u ''url'', PStr (img_url img)), (u ''alt'', PStr (img_alt img)),
            (u ''width'', PStr (img_width img)), (u ''height'', PStr (img_height img)),
            (u ''class'', PStr (img_class img)), (u ''source'', PStr (img_source img))]"

definition specs_dict :: "(ustr \<times> ustr) list \<Rightarrow> pyval" where
  "specs_dict specs = PDict (map (\<lambda>(key, value). (key, PStr value)) specs)"

text \<open>
  The functions of the Python library that the extractors call and that are parameters
  of the model: the order of \<open>list(set(...))\<close>, \<open>re.findall\<close> of the image URL
  patterns, \<open>re.search\<close> of the order-quantity patterns, and \<open>re.findall\<close> of the phone
  pattern.
\<close>

record runtime =
  rt_lower :: "ustr \<Rightarrow> ustr"
  rt_set_list :: "ustr list \<Rightarrow> ustr list"
  rt_findall :: "alicdn_pattern \<Rightarrow> ustr \<Rightarrow> ustr list"
  rt_search :: "ustr \<Rightarrow> ustr \<Rightarrow> ustr option"
  rt_phones :: "ustr \<Rightarrow> ustr list"

text \<open>
  What happens while one target is processed: the outcome of \<open>driver.get(url)\<close>, the
  page before and after the lazy-load scroll, the operator's answers to \<open>input()\<close>, the
  scroll distances drawn by \<open>human_simulate\<close> and the outcome of its script calls, the
  script calls of \<open>scroll_to_load_images\<close>, and the clock.
\<close>

record session =
  navigation :: "unit attempt"
  loaded :: page
  scrolled :: page
  stdin :: "nat \<Rightarrow> unit attempt"
  scroll_draws :: "int list"
  scroll_exec :: "nat \<Rightarrow> int \<Rightarrow> unit attempt"
  scroll_js :: "nat \<Rightarrow> jsval attempt"
  now :: ustr

text \<open>
  \<open>SimpleBatch1688.extract_single_product\<close>. The whole body stands in
  \<open>try ... except Exception: return None\<close>. \<open>None\<close> of the option type: the function
  does not return (the scroll loop of the image collector runs for ever).
\<close>

definition extract_single_product :: "runtime \<Rightarrow> session \<Rightarrow> nat \<Rightarrow> pyval option" where
  "extract_single_product rt s index =
     (case navigation s of
        Raised \<Rightarrow> Some PNone
      | Returned _ \<Rightarrow>
          (let gate = wait_and_handle_captcha captcha_keywords (loaded s) (stdin s) in
           case human_simulate (scroll_exec s) (scroll_draws s) of
             Raised \<Rightarrow> Some PNone
           | Returned _ \<Rightarrow>
               (case current_url (loaded s) of
                  Raised \<Rightarrow> Some PNone
                | Returned url \<Rightarrow>
                    (let title = extract_title title_selectors (loaded s);
                         price = extract_price (rt_set_list rt) (loaded s)
                     in case extract_images (rt_lower rt) (rt_findall rt) (scroll_js s) (loaded s) (scrolled s) of
                          None \<Rightarrow> None
                        | Some images \<Rightarrow>
                            Some (PDict
                              [(u ''index'', PInt (int index)),
                               (u ''url'', PStr url),
                               (u ''timestamp'', PStr (now s)),
                               (u ''title'', str_or_none title),
                               (u ''price'', strs_or_none price),
                               (u ''images'', PList (map image_dict images)),
                               (u ''supplier'', str_or_none (extract_supplier (scrolled s))),
                               (u ''specifications'',
                                  specs_dict (extract_specifications (scrolled s))),
                               (u ''moq'',
                                  str_or_none (extract_moq (rt_search rt) (scrolled s)))])))))"

subsection \<open>The extractors of \<open>batch_1688.py\<close> that differ\<close>

text \<open>
  \<open>Batch1688Crawler.extract_images\<close>: at most 8 images from the \<open>img\<close> elements, no
  scroll. The width and height are the attribute strings or the integer 0.
\<close>

fun batch_image_url :: "element \<Rightarrow> string list \<Rightarrow> ustr option attempt" where
  "batch_image_url img [] = Returned None"
| "batch_image_url img (attr # rest) =
     (case el_attr img attr of
        Raised \<Rightarrow> Raised
      | Returned None \<Rightarrow> batch_image_url img rest
      | Returned (Some url) \<Rightarrow>
          if url \<noteq> [] \<and> startswith url (u ''http'')
             \<and> has_ext [''.jpg'', ''.jpeg'', ''.png'', ''.webp''] url
          then Returned (Some url)
          else batch_image_url img rest)"

definition attr_or_zero :: "element \<Rightarrow> string \<Rightarrow> pyval attempt" where
  "attr_or_zero e name =
     (case el_attr e name of
        Raised \<Rightarrow> Raised
      | Returned None \<Rightarrow> Returned (PInt 0)
      | Returned (Some s) \<Rightarrow> Returned (if s = [] then PInt 0 else PStr s))"

definition batch_image :: "element \<Rightarrow> pyval option attempt" where
  "batch_image img =
     (case batch_image_url img [''src'', ''data-src'', ''data-original'', ''data-lazy''] of
        Raised \<Rightarrow> Raised
      | Returned None \<Rightarrow> Returned None
      | Returned (Some url) \<Rightarrow>
     (case attr_or img ''alt'' [] of
        Raised \<Rightarrow> Raised
      | Returned alt \<Rightarrow>
     (case attr_or_zero img ''width'' of
        Raised \<Rightarrow> Raised
      | Returned width \<Rightarrow>
     (case attr_or_zero img ''height'' of
        Raised \<Rightarrow> Raised
      | Returned height \<Rightarrow>
          Returned (Some (PDict [(u ''url'', PStr url), (u ''alt'', PStr alt),
                                 (u ''width'', width), (u ''height'', height)]))))))"

fun batch_images_loop :: "element list \<Rightarrow> pyval list \<Rightarrow> pyval list" where
  "batch_images_loop [] images = images"
| "batch_images_loop (img # rest) images =
     (case batch_image img of
        Raised \<Rightarrow> batch_images_loop rest images
      | Returned None \<Rightarrow> batch_images_loop rest images
      | Returned (Some d) \<Rightarrow>
          (let images = images @ [d] in
           if length images \<ge> 8 then images else batch_images_loop rest images))"

definition extract_images_batch :: "page \<Rightarrow> pyval list" where
  "extract_images_batch pg =
     (case find_elements_tag pg ''img'' of
        Raised \<Rightarrow> []
      | Returned img_elements \<Rightarrow> batch_images_loop img_elements [])"

definition description_selectors :: "string list" where
  \<open>description_selectors =
     [''.description'', ''.detail-desc'', ''.product-desc'',
      ''[class*="desc"]'', ''[class*="detail"]'']\<close>

definition extract_description :: "page \<Rightarrow> ustr option" where
  "extract_description pg = first_selector_text pg 10 description_selectors"

text \<open>In \<open>batch_1688.py\<close> the body text of these two is read outside any \<open>try\<close>.\<close>

definition extract_moq_batch ::
  "(ustr \<Rightarrow> ustr \<Rightarrow> ustr option) \<Rightarrow> page \<Rightarrow> ustr option attempt" where
  "extract_moq_batch search pg =
     (case body_text pg of
        Raised \<Rightarrow> Raised
      | Returned page_text \<Rightarrow> Returned (moq_search search page_text moq_keywords))"

definition extract_contact_info ::
  "(ustr list \<Rightarrow> ustr list) \<Rightarrow> (ustr \<Rightarrow> ustr list) \<Rightarrow> page \<Rightarrow> pyval attempt" where
  "extract_contact_info set_list phones_of pg =
     (case body_text pg of
        Raised \<Rightarrow> Raised
      | Returned page_text \<Rightarrow>
          (let phones = phones_of page_text in
           Returned (PDict (if phones \<noteq> []
                            then [(u ''phone'', PList (map PStr (take 3 (set_list phones))))]
                            else []))))"

text \<open>\<open>Batch1688Crawler.extract_all_data\<close>; \<open>Raised\<close> when one of its extractors raises.\<close>

definition extract_all_data :: "runtime \<Rightarrow> session \<Rightarrow> nat \<Rightarrow> pyval attempt" where
  "extract_all_data rt s index =
     (case current_url (loaded s) of
        Raised \<Rightarrow> Raised
      | Returned url \<Rightarrow>
     (case extract_price_batch (rt_set_list rt) (loaded s) of
        Raised \<Rightarrow> Raised
      | Returned price \<Rightarrow>
     (case extract_moq_batch (rt_search rt) (loaded s) of
        Raised \<Rightarrow> Raised
      | Returned moq \<Rightarrow>
     (case extract_contact_info (rt_set_list rt) (rt_phones rt) (loaded s) of
        Raised \<Rightarrow> Raised
      | Returned contact_info \<Rightarrow>
          Returned (PDict
            [(u ''index'', PInt (int index)),
             (u ''url'', PStr url),
             (u ''timestamp'', PStr (now s)),
             (u ''title'', str_or_none (extract_title title_selectors_batch (loaded s))),
             (u ''price'', strs_or_none price),
             (u ''images'', PList (extract_images_batch (loaded s))),
             (u ''supplier'', str_or_none (extract_supplier (loaded s))),
             (u ''specifications'', specs_dict (extract_specifications (loaded s))),
             (u ''description'', str_or_none (extract_description (loaded s))),
             (u ''moq'', str_or_none moq),
             (u ''contact_info'', contact_info)])))))"

text \<open>\<open>Batch1688Crawler.extract_single_product\<close>.\<close>

definition extract_single_product_batch :: "runtime \<Rightarrow> session \<Rightarrow> nat \<Rightarrow> pyval option" where
  "extract_single_product_batch rt s index =
     (case navigation s of
        Raised \<Rightarrow> Some PNone
      | Returned _ \<Rightarrow>
          (let gate = wait_and_handle_captcha captcha_keywords_batch (loaded s) (stdin s) in
           case human_simulate (scroll_exec s) (scroll_draws s) of
             Raised \<Rightarrow> Some PNone
           | Returned _ \<Rightarrow>
               (case extract_all_data rt s index of
                  Raised \<Rightarrow> Some PNone
                | Returned product_info \<Rightarrow> Some product_info)))"

section \<open>The batch orchestrator\<close>












section \<open>Example inputs\<close>

text \<open>An image on a plain host, 300 by 300 pixels, found after the lazy-load scroll.\<close>

definition plain_large_image :: image where
  "plain_large_image =
     \<lparr> img_url = u ''https://example.com/a.jpg'', img_alt = [], img_width = u ''300'',
       img_height = u ''300'', img_class = [], img_source = u ''lazy_load'' \<rparr>"

text \<open>An image of the first pass with every URL bonus and no declared size.\<close>

definition cdn_big_image :: image where
  "cdn_big_image =
     \<lparr> img_url = u ''https://cbu01.alicdn.com/x_800_b.jpg'', img_alt = [], img_width = u ''0'',
       img_height = u ''0'', img_class = [], img_source = u ''img_tag'' \<rparr>"

text \<open>A session in which the page loads and every script call of the simulator fails.\<close>

definition calm_session :: session where
  "calm_session =
     \<lparr> navigation = Returned (), loaded = blank_page, scrolled = blank_page,
       stdin = operator_confirms, scroll_draws = [250, 120], scroll_exec = steady_exec,
       scroll_js = (\<lambda>k. Raised), now = u ''2024-01-01T00:00:00'' \<rparr>"

definition shaky_session :: session where
  "shaky_session = calm_session \<lparr> scroll_exec := broken_exec \<rparr>"

text \<open>A library whose regular expressions find nothing and whose sets keep the order.\<close>

definition plain_runtime :: runtime where
  "plain_runtime =
     \<lparr> rt_lower = lower_ascii, rt_set_list = remdups, rt_findall = (\<lambda>pattern source. []),
       rt_search = (\<lambda>keyword text. None), rt_phones = (\<lambda>text. []) \<rparr>"

text \<open>A page whose first heading holds the item's name, under the site's own title.\<close>

definition heading_page :: page where
  "heading_page =
     blank_page \<lparr> find_element_css :=
                    (\<lambda>selector. if selector = ''h1''
                                then Returned (text_element (u '' Steel bolt M8 ''))
                                else Raised),
                  page_title := Returned (u ''1688.com'') \<rparr>"

text \<open>\<open>specs[key] = value\<close> for one scanned row, when key and value are not empty.\<close>

definition bind_row :: "(ustr \<times> ustr) list \<Rightarrow> ustr \<times> ustr \<Rightarrow> (ustr \<times> ustr) list" where
  "bind_row specs r =
     (if py_strip (fst r) \<noteq> [] \<and> py_strip (snd r) \<noteq> []
      then AList.update (py_strip (fst r)) (py_strip (snd r)) specs else specs)"

text \<open>
  What every match of a price pattern looks like: it starts with the fullwidth yen sign,
  or with a digit, or with the yen sign followed only by digits, commas and dots.
\<close>

definition regex_shape :: "ustr \<Rightarrow> bool" where
  "regex_shape x = (x \<noteq> [] \<and> (hd x = 65509 \<or> is_digit (hd x)
                     \<or> (hd x = 165 \<and> list_all money_class (tl x))))"

text \<open>
  The invariant of the collector: the URLs of \<open>images\<close> are pairwise distinct and all
  in \<open>seen_urls\<close>.
\<close>

definition collector_ok :: "collector \<Rightarrow> bool" where
  "collector_ok st = (distinct (map img_url (fst st)) \<and> img_url ` set (fst st) \<subseteq> snd st)"

text \<open>An \<open>img\<close> element given by its attributes.\<close>

definition img_element :: "(string \<times> ustr) list \<Rightarrow> element" where
  "img_element attrs =
     Element (Returned []) (\<lambda>name. Returned (map_of attrs name)) (\<lambda>tag. Returned [])"

text \<open>
  A page with three \<open>img\<close> elements: a 300 by 300 image on a plain host, and twice the
  same image on the preferred host.
\<close>

definition gallery_page :: page where
  "gallery_page =
     blank_page \<lparr> find_elements_tag :=
       (\<lambda>tag. if tag = ''img''
              then Returned
                [img_element [(''src'', u ''https://example.com/a.jpg''),
                              (''width'', u ''300''), (''height'', u ''300'')],
                 img_element [(''src'', u ''https://cbu01.alicdn.com/x_800_b.jpg'')],
                 img_element [(''data-src'', u ''https://cbu01.alicdn.com/x_800_b.jpg'')]]
              else Returned []) \<rparr>"

definition tagged_large_image :: image where
  "tagged_large_image = plain_large_image \<lparr> img_source := u ''img_tag'' \<rparr>"

text \<open>Library calls that find nothing, and a browser whose script calls raise.\<close>

definition no_matches :: "alicdn_pattern \<Rightarrow> ustr \<Rightarrow> ustr list" where
  "no_matches pattern source = []"

definition no_script :: "nat \<Rightarrow> jsval attempt" where
  "no_script k = Raised"

text \<open>A browser window of height 0 on a page of height 1 whose script calls all return.\<close>

definition flat_window :: "nat \<Rightarrow> jsval attempt" where
  "flat_window k = Returned (if k = 3 then JInt 1 else JInt 0)"

text \<open>
  The shape of an extraction record, in the words of the spec: the nine keys, the kind
  of value each of them has, \<open>None\<close> allowed for title, price, supplier and order
  quantity only.
\<close>

definition product_keys :: "ustr list" where
  "product_keys =
     map u [''index'', ''url'', ''timestamp'', ''title'', ''price'', ''images'', ''supplier'',
            ''specifications'', ''moq'']"

fun is_int :: "pyval \<Rightarrow> bool" where
  "is_int (PInt i) = True"
| "is_int v = False"

fun is_str :: "pyval \<Rightarrow> bool" where
  "is_str (PStr s) = True"
| "is_str v = False"

fun is_none_or_str :: "pyval \<Rightarrow> bool" where
  "is_none_or_str PNone = True"
| "is_none_or_str (PStr s) = True"
| "is_none_or_str v = False"

fun is_none_or_strs :: "pyval \<Rightarrow> bool" where
  "is_none_or_strs PNone = True"
| "is_none_or_strs (PList xs) = list_all is_str xs"
| "is_none_or_strs v = False"

fun is_list :: "pyval \<Rightarrow> bool" where
  "is_list (PList xs) = True"
| "is_list v = False"

fun is_dict :: "pyval \<Rightarrow> bool" where
  "is_dict (PDict d) = True"
| "is_dict v = False"

definition has_kind :: "(ustr \<times> pyval) list \<Rightarrow> string \<Rightarrow> (pyval \<Rightarrow> bool) \<Rightarrow> bool" where
  "has_kind d key kind = (case map_of d (u key) of None \<Rightarrow> False | Some v \<Rightarrow> kind v)"

definition fixed_keys_record :: "(ustr \<times> pyval) list \<Rightarrow> bool" where
  "fixed_keys_record d =
     (distinct (map fst d)
      \<and> has_kind d ''index'' is_int
      \<and> has_kind d ''url'' is_str
      \<and> has_kind d ''timestamp'' is_str
      \<and> has_kind d ''title'' is_none_or_str
      \<and> has_kind d ''price'' is_none_or_strs
      \<and> has_kind d ''images'' is_list
      \<and> has_kind d ''supplier'' is_none_or_str
      \<and> has_kind d ''specifications'' is_dict
      \<and> has_kind d ''moq'' is_none_or_str)"

text \<open>The record of a page on which no extractor finds anything.\<close>

definition empty_record :: "nat \<Rightarrow> (ustr \<times> pyval) list" where
  "empty_record index =
     [(u ''index'', PInt (int index)), (u ''url'', PStr []),
      (u ''timestamp'', PStr (u ''2024-01-01T00:00:00'')),
      (u ''title'', PNone), (u ''price'', PNone), (u ''images'', PList []),
      (u ''supplier'', PNone), (u ''specifications'', PDict []), (u ''moq'', PNone)]"

text \<open>The same session on a page that has a body, with an empty text.\<close>

definition bare_session :: session where
  "bare_session = calm_session \<lparr> loaded := body_page [], scrolled := body_page [] \<rparr>"






text \<open>The record that \<open>batch_1688.py\<close> builds for a page with an empty body.\<close>

definition empty_record_batch :: "nat \<Rightarrow> (ustr \<times> pyval) list" where
  "empty_record_batch index =
     [(u ''index'', PInt (int index)), (u ''url'', PStr []),
      (u ''timestamp'', PStr (u ''2024-01-01T00:00:00'')),
      (u ''title'', PNone), (u ''price'', PNone), (u ''images'', PList []),
      (u ''supplier'', PNone), (u ''specifications'', PDict []), (u ''description'', PNone),
      (u ''moq'', PNone), (u ''contact_info'', PDict [])]"





text \<open>
  A set order that lists the elements from the last inserted to the first, and a body
  text with four prices: yen sign and 1, 2, 3, 4, separated by blanks.
\<close>

definition newest_first :: "ustr list \<Rightarrow> ustr list" where
  "newest_first xs = rev (remdups xs)"

definition four_prices_text :: ustr where
  "four_prices_text = [165, 49, 32, 165, 50, 32, 165, 51, 32, 165, 52]"

text \<open>The same image with its size written in fullwidth digits (U+FF13 U+FF10 U+FF10).\<close>

definition fullwidth_large_image :: image where
  "fullwidth_large_image =
     plain_large_image \<lparr> img_width := [65299, 65296, 65296],
                         img_height := [65299, 65296, 65296] \<rparr>"

text \<open>
  A page that answers from a document; a document with the phrase \<open>captcha\<close> in the
  second text node of an element; and a closed standard input.
\<close>

definition document_page :: "node \<Rightarrow> page" where
  "document_page doc =
     blank_page \<lparr> find_elements_text :=
       (\<lambda>keyword. Returned (map node_element (xpath_contains_text doc keyword))) \<rparr>"

definition late_phrase_document :: node where
  "late_phrase_document =
     Tag [Tag [Text (u ''Welcome''), Tag [], Text (u ''captcha required'')]]"

definition early_phrase_document :: node where
  "early_phrase_document = Tag [Tag [Text (u ''captcha required''), Tag []]]"

definition closed_stdin :: "nat \<Rightarrow> unit attempt" where
  "closed_stdin k = Raised"

section \<open>Properties of the quality score\<close>

lemma add_if: "(if c then p + k else p) = p + (if c then k else (0::int))"
  by simp

lemma add_if2: "(if c then p + a else p + b) = p + (if c then a else (b::int))"
  by simp

lemmas digit_defs = is_digit_def decimal_value_def decimal_blocks_def

lemmas int_defs = py_int_def int_space_def py_isspace_def unsigned_int_def digit_defs

lemma py_int_300: "py_int [51, 48, 48] = Some 300"
  by (simp add: int_defs)

lemma py_int_0: "py_int [48] = Some 0"
  by (simp add: int_defs)

lemma py_int_fullwidth: "py_int [65299, 65296, 65296] = Some 300"
  by (simp add: int_defs)

lemma py_int_separator: "py_int [28, 49, 50] = None"
  by (simp add: int_defs)

lemma unsigned_int_limit: "4300 < length (filter is_digit s) \<Longrightarrow> unsigned_int s = None"
  by (simp add: unsigned_int_def)

lemma plain_large_priority: "get_image_priority lower_ascii plain_large_image = 40"
proof -
  have url: "lower_ascii (img_url plain_large_image) =
          [104, 116, 116, 112, 115, 58, 47, 47, 101, 120, 97, 109, 112, 108, 101, 46, 99, 111,
           109, 47, 97, 46, 106, 112, 103]"
    by (simp add: plain_large_image_def u_def lower_ascii_def lower_char_def)
  have size: "py_int (img_width plain_large_image) = Some 300"
             "py_int (img_height plain_large_image) = Some 300"
    by (simp_all add: plain_large_image_def u_def py_int_300)
  have origin: "img_source plain_large_image \<noteq> u ''img_tag''"
    by (simp add: plain_large_image_def u_def)
  show ?thesis
    unfolding get_image_priority_def Let_def add_if add_if2 url size
    using origin by (simp add: u_def)
qed

text \<open>
  C3, as stated: the score is the sum of four bonuses, 100, 50, 30 and 20, each granted
  or not. The image \<open>plain_large_image\<close> (no URL hint, 300 by 300 declared pixels, found
  after the scroll) scores 40, which is the sum of no selection of the four.
\<close>

theorem score_four_bonuses_counterexample:
  "get_image_priority lower_ascii plain_large_image = 40
   \<and> (40 :: int) \<notin> set (map sum_list (subseqs [100, 50, 30, 20]))"
  using plain_large_priority by simp

text \<open>
  C3, amended: the score is the sum of five bonuses. 100 for \<open>_b.jpg\<close>, \<open>_large\<close> or
  \<open>_big\<close> in the lower-cased URL; 50 for the host \<open>cbu01.alicdn.com\<close> in it; 30 for
  \<open>800\<close>, \<open>600\<close> or \<open>400\<close> in it (a size written in the URL, not the declared
  dimensions); 20 for the origin \<open>img_tag\<close>; and, when \<open>int\<close> reads the declared width
  and the declared height as integers, 40 if both exceed 200, else 20 if both exceed 100.
\<close>

theorem score_five_bonuses:
  "get_image_priority lower img =
     (if py_in (u ''_b.jpg'') (lower (img_url img)) \<or> py_in (u ''_large'') (lower (img_url img))
         \<or> py_in (u ''_big'') (lower (img_url img)) then 100 else 0)
   + (if py_in (u ''cbu01.alicdn.com'') (lower (img_url img)) then 50 else 0)
   + (if py_in (u ''800'') (lower (img_url img)) \<or> py_in (u ''600'') (lower (img_url img))
         \<or> py_in (u ''400'') (lower (img_url img)) then 30 else 0)
   + (if img_source img = u ''img_tag'' then 20 else 0)
   + (case (py_int (img_width img), py_int (img_height img)) of
        (Some w, Some h) \<Rightarrow> if 200 < w \<and> 200 < h then 40 else if 100 < w \<and> 100 < h then 20 else 0
      | _ \<Rightarrow> 0)"
  unfolding get_image_priority_def Let_def add_if add_if2
  by (cases "py_int (img_width img)"; cases "py_int (img_height img)")
     (simp_all split del: if_split)

theorem score_five_bonuses_witness:
  "get_image_priority lower_ascii cdn_big_image = 200
   \<and> get_image_priority lower_ascii fullwidth_large_image = 40"
proof -
  have cdn: "lower_ascii (img_url cdn_big_image) =
          [104, 116, 116, 112, 115, 58, 47, 47, 99, 98, 117, 48, 49, 46, 97, 108, 105, 99, 100,
           110, 46, 99, 111, 109, 47, 120, 95, 56, 48, 48, 95, 98, 46, 106, 112, 103]"
    by (simp add: cdn_big_image_def u_def lower_ascii_def lower_char_def)
  have a: "get_image_priority lower_ascii cdn_big_image = 200"
    unfolding score_five_bonuses [of lower_ascii cdn_big_image] cdn
    by (simp add: cdn_big_image_def u_def py_int_0)
  have plain: "lower_ascii (img_url fullwidth_large_image) =
          [104, 116, 116, 112, 115, 58, 47, 47, 101, 120, 97, 109, 112, 108, 101, 46, 99, 111,
           109, 47, 97, 46, 106, 112, 103]"
    by (simp add: fullwidth_large_image_def plain_large_image_def u_def lower_ascii_def
          lower_char_def)
  have b: "get_image_priority lower_ascii fullwidth_large_image = 40"
    unfolding score_five_bonuses [of lower_ascii fullwidth_large_image] plain
    by (simp add: fullwidth_large_image_def plain_large_image_def u_def py_int_fullwidth)
  from a b show ?thesis by simp
qed

section \<open>Properties of the human-behaviour simulator\<close>

lemma scroll_steps_returns:
  "(scroll_steps exec k ys = Returned ()) = (\<forall>i < length ys. exec (k + i) (ys ! i) = Returned ())"
proof (induction ys arbitrary: k)
  case Nil
  show ?case by simp
next
  case (Cons y ys)
  show ?case
  proof (cases "exec k y")
    case Raised
    then show ?thesis by (auto intro: exI[of _ 0])
  next
    case (Returned x)
    have "(\<forall>i < Suc (length ys). exec (k + i) ((y # ys) ! i) = Returned ())
          = (exec k y = Returned () \<and> (\<forall>i < length ys. exec (Suc k + i) (ys ! i) = Returned ()))"
      by (auto simp: less_Suc_eq_0_disj)
    with Returned Cons.IH[of "Suc k"] show ?thesis by simp
  qed
qed

lemma unit_attempt: "((a :: unit attempt) \<noteq> Returned ()) = (a = Raised)"
  by (cases a) auto

lemma human_simulate_outcome:
  "(human_simulate exec ys = Returned ()) = (\<forall>i < length ys. exec i (ys ! i) = Returned ())"
  "(human_simulate exec ys = Raised) = (\<exists>i < length ys. exec i (ys ! i) = Raised)"
proof -
  show a: "(human_simulate exec ys = Returned ()) = (\<forall>i < length ys. exec i (ys ! i) = Returned ())"
    using scroll_steps_returns[of exec 0 ys] by (simp add: human_simulate_def)
  have "(human_simulate exec ys = Raised) = (human_simulate exec ys \<noteq> Returned ())"
    using unit_attempt[of "human_simulate exec ys"] by simp
  also have "\<dots> = (\<exists>i < length ys. exec i (ys ! i) \<noteq> Returned ())"
    using a by simp
  also have "\<dots> = (\<exists>i < length ys. exec i (ys ! i) = Raised)"
    using unit_attempt by simp
  finally show "(human_simulate exec ys = Raised) = (\<exists>i < length ys. exec i (ys ! i) = Raised)" .
qed

text \<open>
  C8, as stated: \<open>simulate\<close> returns normally in every session, also when a scroll
  script call raises. With a browser whose script calls raise it does not return
  normally: the exception leaves \<open>human_simulate\<close>.
\<close>

theorem simulate_never_fails_counterexample:
  "human_simulate broken_exec [250, 120] = Raised"
  by (simp add: human_simulate_def broken_exec_def)

text \<open>
  C8, amended: \<open>human_simulate\<close> returns normally, with no value, exactly when none of
  its script calls raises; when one raises, the exception leaves \<open>human_simulate\<close>, and
  the item pipeline that called it catches it and returns \<open>None\<close> for the item.
\<close>

theorem simulate_propagates:
  "(human_simulate exec ys = Returned ()) = (\<forall>i < length ys. exec i (ys ! i) = Returned ())
   \<and> (human_simulate exec ys = Raised) = (\<exists>i < length ys. exec i (ys ! i) = Raised)
   \<and> (navigation s = Returned () \<and> human_simulate (scroll_exec s) (scroll_draws s) = Raised
        \<longrightarrow> extract_single_product rt s index = Some PNone
            \<and> extract_single_product_batch rt s index = Some PNone)"
  using human_simulate_outcome[of exec ys]
  by (simp add: extract_single_product_def extract_single_product_batch_def Let_def)

theorem simulate_propagates_witness:
  "human_simulate steady_exec [250, 120] = Returned ()
   \<and> human_simulate broken_exec [250, 120] = Raised
   \<and> extract_single_product plain_runtime shaky_session 1 = Some PNone"
proof -
  have nav: "navigation shaky_session = Returned ()"
    by (simp add: shaky_session_def calm_session_def)
  have sim: "human_simulate (scroll_exec shaky_session) (scroll_draws shaky_session) = Raised"
    by (simp add: shaky_session_def calm_session_def human_simulate_def broken_exec_def)
  have ok: "\<forall>i < length [250, 120 :: int]. steady_exec i ([250, 120] ! i) = Returned ()"
    by (simp add: steady_exec_def)
  have bad: "\<exists>i < length [250, 120 :: int]. broken_exec i ([250, 120] ! i) = Raised"
    by (auto simp: broken_exec_def)
  show ?thesis
    using simulate_propagates [of steady_exec "[250, 120]" shaky_session plain_runtime 1]
          simulate_propagates [of broken_exec "[250, 120]" shaky_session plain_runtime 1]
          nav sim ok bad
    by simp
qed

section \<open>Properties of the anti-bot gate\<close>

lemma captcha_scan_prompts:
  "captcha_scan pg inp k kws = (b, n) \<Longrightarrow>
     (b \<longrightarrow> k < n \<and> n \<le> k + length (hits pg kws) \<and> inp (n - 1) = Returned ()
            \<and> (\<forall>j. k \<le> j \<and> j < n - 1 \<longrightarrow> inp j = Raised))
     \<and> (\<not> b \<longrightarrow> n = k + length (hits pg kws) \<and> (\<forall>j. k \<le> j \<and> j < n \<longrightarrow> inp j = Raised))"
proof (induction kws arbitrary: k)
  case Nil
  then show ?case by (auto simp: hits_def)
next
  case (Cons kw kws)
  show ?case
  proof (cases "hit pg kw")
    case False
    then have "captcha_scan pg inp k (kw # kws) = captcha_scan pg inp k kws"
      by (auto simp: hit_def split: attempt.splits)
    with Cons.prems have "captcha_scan pg inp k kws = (b, n)" by simp
    from Cons.IH[OF this] False show ?thesis by (simp add: hits_def)
  next
    case True
    then have len: "length (hits pg (kw # kws)) = Suc (length (hits pg kws))"
      by (simp add: hits_def)
    show ?thesis
    proof (cases "inp k")
      case (Returned x)
      with True have "captcha_scan pg inp k (kw # kws) = (True, Suc k)"
        by (auto simp: hit_def split: attempt.splits)
      with Cons.prems have "b" "n = Suc k" by simp_all
      with Returned len show ?thesis by auto
    next
      case Raised
      with True have "captcha_scan pg inp k (kw # kws) = captcha_scan pg inp (Suc k) kws"
        by (auto simp: hit_def split: attempt.splits)
      with Cons.prems have r: "captcha_scan pg inp (Suc k) kws = (b, n)" by simp
      have step: "\<And>j m. (\<forall>j. Suc k \<le> j \<and> j < m \<longrightarrow> inp j = Raised)
                    \<Longrightarrow> k \<le> j \<Longrightarrow> j < m \<Longrightarrow> inp j = Raised"
        using Raised by (metis Suc_leI le_neq_implies_less)
      from Cons.IH[OF r] len step show ?thesis
        by (cases b) auto
    qed
  qed
qed

lemma first_text_child: "first_text cs \<noteq> [] \<Longrightarrow> Text (first_text cs) \<in> set cs"
  by (induction cs rule: first_text.induct) auto

lemma texts_of_element:
  "e \<in> set (all_elements doc) \<Longrightarrow> set (all_texts e) \<subseteq> set (all_texts doc)"
proof (induction doc)
  case (Text t)
  then show ?case by simp
next
  case (Tag cs)
  from Tag.prems have "e = Tag cs \<or> (\<exists>c \<in> set cs. e \<in> set (all_elements c))" by auto
  then show ?case
  proof
    assume "e = Tag cs"
    then show ?thesis by simp
  next
    assume "\<exists>c \<in> set cs. e \<in> set (all_elements c)"
    then obtain c where c: "c \<in> set cs" "e \<in> set (all_elements c)" by blast
    from Tag.IH[OF c] c(1) show ?thesis by auto
  qed
qed

lemma selected_contains:
  assumes "xpath_contains_text doc kw \<noteq> []" and "kw \<noteq> []"
  shows "page_contains doc kw"
proof -
  from assms(1) obtain e where e: "e \<in> set (all_elements doc)" "selected kw e"
    by (auto simp: xpath_contains_text_def filter_empty_conv)
  from e(2) have "\<exists>cs. e = Tag cs \<and> py_in kw (first_text cs)"
    unfolding selected_def by (simp split: node.splits)
  then obtain cs where cs: "e = Tag cs" "py_in kw (first_text cs)" by blast
  from cs(2) assms(2) have "first_text cs \<noteq> []" by (cases "first_text cs") auto
  from first_text_child[OF this] cs(1) have "first_text cs \<in> set (all_texts e)"
    by force
  with texts_of_element[OF e(1)] have "first_text cs \<in> set (all_texts doc)" by blast
  with cs(2) show ?thesis by (auto simp: page_contains_def list_ex_iff)
qed

lemma answers_hit:
  "answers_from doc pg \<Longrightarrow> hit pg kw \<Longrightarrow> xpath_contains_text doc kw \<noteq> []"
  unfolding answers_from_def hit_def
  by (metis (mono_tags, lifting) attempt.simps(4,5) list.map_disc_iff)


lemma hits_early:
  "hits (document_page early_phrase_document) captcha_keywords_batch = [u ''captcha'']"
  by (simp add: hits_def hit_def document_page_def early_phrase_document_def
      xpath_contains_text_def selected_def captcha_keywords_batch_def captcha_keywords_def u_def)

lemma hits_late:
  "hits (document_page late_phrase_document) captcha_keywords = []"
  by (simp add: hits_def hit_def document_page_def late_phrase_document_def
      xpath_contains_text_def selected_def captcha_keywords_def u_def)

lemma document_page_answers: "answers_from doc (document_page doc)"
  by (simp add: answers_from_def document_page_def)

lemma late_contains: "page_contains late_phrase_document (u ''captcha'')"
  by (simp add: page_contains_def late_phrase_document_def u_def)

lemma early_contains: "page_contains early_phrase_document (u ''captcha'')"
  by (simp add: page_contains_def early_phrase_document_def u_def)

text \<open>
  C9, as stated, fails in two ways. The phrase \<open>captcha\<close> stands in the second text node
  of an element of \<open>late_phrase_document\<close>: the page contains a configured phrase, the
  XPath tests the first text node only and selects nothing, and the gate returns
  \<open>False\<close> without a prompt although the operator would confirm. And on
  \<open>captcha_page\<close> the query finds an element, the prompt raises on a closed standard
  input, the bare \<open>except\<close> swallows the raise, and the gate returns \<open>False\<close> after one
  prompt: no acknowledgment was received and it did not wait for one.
\<close>

theorem gate_phrase_counterexample:
  "u ''captcha'' \<in> set captcha_keywords
   \<and> page_contains late_phrase_document (u ''captcha'')
   \<and> answers_from late_phrase_document (document_page late_phrase_document)
   \<and> wait_and_handle_captcha captcha_keywords (document_page late_phrase_document)
        operator_confirms = (False, 0)
   \<and> hit captcha_page (u ''captcha'')
   \<and> wait_and_handle_captcha captcha_keywords captcha_page closed_stdin = (False, 1)"
proof -
  have "wait_and_handle_captcha captcha_keywords (document_page late_phrase_document)
          operator_confirms = (False, 0)"
    by (simp add: wait_and_handle_captcha_def document_page_def late_phrase_document_def
        xpath_contains_text_def selected_def captcha_keywords_def u_def)
  moreover have "wait_and_handle_captcha captcha_keywords captcha_page closed_stdin = (False, 1)"
    by (simp add: wait_and_handle_captcha_def captcha_page_def closed_stdin_def
        captcha_keywords_def u_def)
  moreover have "hit captcha_page (u ''captcha'')"
    by (simp add: hit_def captcha_page_def)
  moreover have "u ''captcha'' \<in> set captcha_keywords"
    by (simp add: captcha_keywords_def)
  ultimately show ?thesis
    using late_contains document_page_answers by blast
qed

text \<open>
  C9, amended: the gate prompts once for each keyword whose query finds an element, in
  the order of the list, until a prompt returns. If it returns \<open>(True, n)\<close>, the
  \<open>n\<close>-th prompt is the first one that returned (the acknowledgment), the ones before
  raised, and \<open>n\<close> is at most the number of such keywords; if it returns \<open>(False, n)\<close>,
  every such keyword was prompted for and every prompt raised, so with no such keyword
  it returns \<open>False\<close> without a prompt. On a page that answers the queries from its
  document, a keyword finds an element only if the XPath selects one, and then (the
  keyword not being empty) some text node of the document contains it: so when no text
  node contains any of the keywords, none of them empty, the gate returns \<open>False\<close>
  without a prompt. This holds for every keyword list, so for the lists of both scripts.
\<close>

theorem gate_prompts_until_confirmed:
  "(\<forall>b n. wait_and_handle_captcha kws pg inp = (b, n) \<longrightarrow>
       (b \<longrightarrow> 1 \<le> n \<and> n \<le> length (hits pg kws) \<and> inp (n - 1) = Returned ()
              \<and> (\<forall>j < n - 1. inp j = Raised))
     \<and> (\<not> b \<longrightarrow> n = length (hits pg kws) \<and> (\<forall>j < n. inp j = Raised)))
   \<and> (answers_from doc pg \<longrightarrow>
        (\<forall>kw. hit pg kw \<longrightarrow>
           xpath_contains_text doc kw \<noteq> [] \<and> (kw \<noteq> [] \<longrightarrow> page_contains doc kw))
        \<and> ((\<forall>kw \<in> set kws. kw \<noteq> [] \<and> \<not> page_contains doc kw)
             \<longrightarrow> wait_and_handle_captcha kws pg inp = (False, 0)))"
proof (intro conjI allI impI)
  fix b n
  assume r: "wait_and_handle_captcha kws pg inp = (b, n)"
  then have s: "captcha_scan pg inp 0 kws = (b, n)"
    by (simp add: wait_and_handle_captcha_def)
  note p = captcha_scan_prompts[OF s]
  { assume b
    with p show "1 \<le> n" by simp
    from \<open>b\<close> p show "n \<le> length (hits pg kws)" by simp
    from \<open>b\<close> p show "inp (n - 1) = Returned ()" by simp
    fix j assume "j < n - 1"
    with \<open>b\<close> p show "inp j = Raised" by simp }
  { assume "\<not> b"
    with p show "n = length (hits pg kws)" by simp
    fix j assume "j < n"
    with \<open>\<not> b\<close> p show "inp j = Raised" by simp }
next
  fix kw
  assume a: "answers_from doc pg" and h: "hit pg kw"
  from answers_hit[OF a h] show x: "xpath_contains_text doc kw \<noteq> []" .
  assume "kw \<noteq> []"
  with x show "page_contains doc kw" by (rule selected_contains)
next
  assume a: "answers_from doc pg"
     and none: "\<forall>kw \<in> set kws. kw \<noteq> [] \<and> \<not> page_contains doc kw"
  have "hits pg kws = []"
    unfolding hits_def filter_empty_conv
  proof
    fix kw assume k: "kw \<in> set kws"
    show "\<not> hit pg kw"
    proof
      assume "hit pg kw"
      from selected_contains[OF answers_hit[OF a this]] none k show False by blast
    qed
  qed
  moreover obtain b n where r: "captcha_scan pg inp 0 kws = (b, n)" by force
  ultimately show "wait_and_handle_captcha kws pg inp = (False, 0)"
    using captcha_scan_prompts[OF r] r by (cases b) (auto simp: wait_and_handle_captcha_def)
qed

theorem gate_prompts_until_confirmed_witness:
  "wait_and_handle_captcha captcha_keywords_batch (document_page early_phrase_document)
     operator_confirms = (True, 1)
   \<and> hits (document_page early_phrase_document) captcha_keywords_batch = [u ''captcha'']
   \<and> operator_confirms 0 = Returned ()
   \<and> answers_from early_phrase_document (document_page early_phrase_document)
   \<and> hit (document_page early_phrase_document) (u ''captcha'')
   \<and> u ''captcha'' \<noteq> []
   \<and> page_contains early_phrase_document (u ''captcha'')
   \<and> wait_and_handle_captcha captcha_keywords_batch (document_page early_phrase_document)
        closed_stdin = (False, 1)
   \<and> \<not> list_ex (page_contains (Tag [Text (u ''Steel bolt M8'')])) captcha_keywords
   \<and> wait_and_handle_captcha captcha_keywords (document_page (Tag [Text (u ''Steel bolt M8'')]))
        operator_confirms = (False, 0)"
proof -
  let ?pg = "document_page early_phrase_document"
  let ?plain = "Tag [Text (u ''Steel bolt M8'')]"
  note t = gate_prompts_until_confirmed
  have ack: "\<And>j. operator_confirms j = Returned ()" by (simp add: operator_confirms_def)
  have eof: "\<And>j. closed_stdin j = Raised" by (simp add: closed_stdin_def)
  have h: "hit ?pg (u ''captcha'')"
    by (simp add: hit_def document_page_def early_phrase_document_def
        xpath_contains_text_def selected_def u_def)
  have ne: "u ''captcha'' \<noteq> []" by (simp add: u_def)
  obtain b n where r: "wait_and_handle_captcha captcha_keywords_batch ?pg operator_confirms = (b, n)"
    by force
  from t[of captcha_keywords_batch ?pg operator_confirms early_phrase_document, THEN conjunct1,
         rule_format, OF r] hits_early ack
  have "b \<and> n = 1" by (cases b) auto
  with r have one: "wait_and_handle_captcha captcha_keywords_batch ?pg operator_confirms = (True, 1)"
    by simp
  obtain b' n' where r': "wait_and_handle_captcha captcha_keywords_batch ?pg closed_stdin = (b', n')"
    by force
  from t[of captcha_keywords_batch ?pg closed_stdin early_phrase_document, THEN conjunct1,
         rule_format, OF r'] hits_early eof
  have "\<not> b' \<and> n' = 1" by (cases b') auto
  with r' have two: "wait_and_handle_captcha captcha_keywords_batch ?pg closed_stdin = (False, 1)"
    by simp
  from t[of captcha_keywords_batch ?pg operator_confirms early_phrase_document, THEN conjunct2,
         rule_format, OF document_page_answers, THEN conjunct1, rule_format, OF h] ne
  have c: "page_contains early_phrase_document (u ''captcha'')" by simp
  have none: "\<forall>kw \<in> set captcha_keywords. kw \<noteq> [] \<and> \<not> page_contains ?plain kw"
    by (simp add: captcha_keywords_def page_contains_def u_def)
  then have none': "\<not> list_ex (page_contains ?plain) captcha_keywords"
    by (simp add: list_ex_iff)
  from t[of captcha_keywords "document_page ?plain" operator_confirms ?plain, THEN conjunct2,
         rule_format, OF document_page_answers, THEN conjunct2, THEN mp, OF none]
  have three: "wait_and_handle_captcha captcha_keywords (document_page ?plain) operator_confirms
                 = (False, 0)" .
  from one two three hits_early ack h ne c none' document_page_answers
  show ?thesis by blast
qed

section \<open>Properties of the title extractor\<close>

lemma first_selector_text_none:
  "(first_selector_text pg n sels = None) = (\<forall>sel \<in> set sels. selector_text pg n sel = None)"
  by (induction sels) (auto split: option.splits)

lemma first_selector_text_at:
  "i < length sels \<Longrightarrow> selector_text pg n (sels ! i) = Some t
   \<Longrightarrow> \<forall>j < i. selector_text pg n (sels ! j) = None
   \<Longrightarrow> first_selector_text pg n sels = Some t"
proof (induction sels arbitrary: i)
  case Nil
  then show ?case by simp
next
  case (Cons a sels)
  show ?case
  proof (cases i)
    case 0
    with Cons.prems show ?thesis by simp
  next
    case (Suc i')
    from Cons.prems(3) Suc have a: "selector_text pg n a = None" by auto
    from Cons.prems(3) Suc have "\<forall>j < i'. selector_text pg n (sels ! j) = None" by auto
    with Cons.IH[of i'] Cons.prems(1,2) Suc have "first_selector_text pg n sels = Some t" by simp
    with a show ?thesis by simp
  qed
qed

text \<open>
  C7: the selectors are tried in order, and the text of the first selector that yields
  one (stripped, more than 3 characters) is the title; only when every selector fails is
  the page title looked at, and then it is returned exactly when it is not empty and does
  not contain \<open>1688\<close>. Otherwise the result is \<open>None\<close>: the fallback never returns a title
  with the brand token.
\<close>

theorem title_selectors_then_fallback:
  "(\<forall>i < length selectors.
       selector_text pg 3 (selectors ! i) = Some t
       \<and> (\<forall>j < i. selector_text pg 3 (selectors ! j) = None)
       \<longrightarrow> extract_title selectors pg = Some t)
   \<and> ((\<forall>sel \<in> set selectors. selector_text pg 3 sel = None)
       \<longrightarrow> (extract_title selectors pg = Some t)
            = (page_title pg = Returned t \<and> t \<noteq> [] \<and> \<not> py_in (u ''1688'') t)
         \<and> (extract_title selectors pg = None)
            = (page_title pg = Raised \<or> page_title pg = Returned []
               \<or> (\<exists>pt. page_title pg = Returned pt \<and> py_in (u ''1688'') pt)))"
proof (intro conjI allI impI)
  fix i assume "i < length selectors"
    and "selector_text pg 3 (selectors ! i) = Some t
         \<and> (\<forall>j < i. selector_text pg 3 (selectors ! j) = None)"
  then have "first_selector_text pg 3 selectors = Some t"
    using first_selector_text_at by blast
  then show "extract_title selectors pg = Some t" by (simp add: extract_title_def)
next
  assume "\<forall>sel \<in> set selectors. selector_text pg 3 sel = None"
  then have n: "first_selector_text pg 3 selectors = None"
    by (simp add: first_selector_text_none)
  show "(extract_title selectors pg = Some t)
            = (page_title pg = Returned t \<and> t \<noteq> [] \<and> \<not> py_in (u ''1688'') t)"
    using n by (auto simp: extract_title_def split: attempt.splits)
  show "(extract_title selectors pg = None)
            = (page_title pg = Raised \<or> page_title pg = Returned []
               \<or> (\<exists>pt. page_title pg = Returned pt \<and> py_in (u ''1688'') pt))"
    using n by (auto simp: extract_title_def split: attempt.splits)
qed

lemma blank_selectors_fail:
  "find_element_css pg = (\<lambda>s. Raised) \<Longrightarrow> \<forall>sel \<in> set sels. selector_text pg 3 sel = None"
  by (simp add: selector_text_def)

theorem title_selectors_then_fallback_witness:
  "extract_title title_selectors heading_page = Some (u ''Steel bolt M8'')
   \<and> extract_title title_selectors item_title_page = Some (u ''Steel bolt M8'')
   \<and> extract_title title_selectors_batch site_title_page = None"
proof -
  have strip: "py_strip (u '' Steel bolt M8 '') = u ''Steel bolt M8''"
    by (simp add: u_def py_strip_def py_isspace_def)
  have h1: "selector_text heading_page 3 (title_selectors ! 0) = Some (u ''Steel bolt M8'')"
    by (simp add: title_selectors_def selector_text_def heading_page_def blank_page_def
          text_element_def strip) (simp add: u_def)
  have len: "0 < length title_selectors"
    by (simp add: title_selectors_def)
  have heading: "extract_title title_selectors heading_page = Some (u ''Steel bolt M8'')"
    using title_selectors_then_fallback
            [of title_selectors heading_page "u ''Steel bolt M8''",
             THEN conjunct1, rule_format, of 0] h1 len
    by simp
  have item_fail: "\<forall>sel \<in> set title_selectors. selector_text item_title_page 3 sel = None"
    by (rule blank_selectors_fail) (simp add: item_title_page_def blank_page_def)
  have item_title: "page_title item_title_page = Returned (u ''Steel bolt M8'')"
    by (simp add: item_title_page_def)
  have item_ok: "u ''Steel bolt M8'' \<noteq> [] \<and> \<not> py_in (u ''1688'') (u ''Steel bolt M8'')"
    by (simp add: u_def)
  have item: "extract_title title_selectors item_title_page = Some (u ''Steel bolt M8'')"
    using title_selectors_then_fallback
            [of title_selectors item_title_page "u ''Steel bolt M8''"]
          item_fail item_title item_ok
    by simp
  have site_fail: "\<forall>sel \<in> set title_selectors_batch. selector_text site_title_page 3 sel = None"
    by (rule blank_selectors_fail) (simp add: site_title_page_def blank_page_def)
  have site_title: "page_title site_title_page = Returned (u ''1688.com'')"
    by (simp add: site_title_page_def)
  have token: "py_in (u ''1688'') (u ''1688.com'')"
    by (simp add: u_def)
  have site: "extract_title title_selectors_batch site_title_page = None"
    using title_selectors_then_fallback [of title_selectors_batch site_title_page "[]"]
          site_fail site_title token
    by simp
  show ?thesis using heading item site by simp
qed

section \<open>Properties of the specifications extractor\<close>

lemma spec_rows_foldl:
  "spec_rows rows specs = (foldl bind_row specs (fst (scanned_rows rows)), snd (scanned_rows rows))"
proof (induction rows arbitrary: specs)
  case Nil
  show ?case by simp
next
  case (Cons row rows)
  show ?case
    by (simp add: Cons.IH bind_row_def Let_def split: attempt.splits prod.splits)
qed

lemma spec_tables_foldl:
  "spec_tables tables specs = foldl bind_row specs (scanned_tables tables)"
proof (induction tables arbitrary: specs)
  case Nil
  show ?case by simp
next
  case (Cons t ts)
  show ?case
    by (simp add: Cons.IH spec_rows_foldl split: attempt.splits prod.splits bool.splits)
qed

lemma extract_specifications_foldl:
  "extract_specifications pg = foldl bind_row [] (scanned pg)"
  by (simp add: extract_specifications_def scanned_def spec_tables_foldl Let_def
           split: attempt.splits)

lemma map_of_bind_row:
  "map_of (bind_row specs r) k = (if binds k r then Some (py_strip (snd r)) else map_of specs k)"
  by (simp add: bind_row_def binds_def update_conv')

lemma map_of_foldl_bind_row:
  "map_of (foldl bind_row specs rows) k =
     (case filter (binds k) rows of
        [] \<Rightarrow> map_of specs k
      | r # rs \<Rightarrow> Some (py_strip (snd (last (r # rs)))))"
proof (induction rows arbitrary: specs)
  case Nil
  show ?case by simp
next
  case (Cons r rows)
  show ?case
    by (cases "filter (binds k) rows") (simp_all add: Cons.IH map_of_bind_row)
qed

lemma colour_table:
  "extract_specifications (table_page colour_rows) = [([39068, 33394], [34013])]"
  by (simp add: extract_specifications_def table_page_def blank_page_def table_element_def
        row_element_def text_element_def colour_rows_def py_strip_def py_isspace_def)

text \<open>
  C6: the dictionary returned by \<open>extract_specifications\<close> binds a key \<open>k\<close> exactly when
  some scanned row (a row with at least two cells, read before any raise) has the
  stripped first cell \<open>k\<close> with key and value not empty, and then to the stripped second
  cell of the last such row in scan order. The two rows of the spec's example, both with
  the key U+989C U+8272, give the single entry with the value of the second row, U+84DD.
\<close>

theorem specs_last_write_wins:
  "map_of (extract_specifications pg) k =
     (case filter (binds k) (scanned pg) of
        [] \<Rightarrow> None
      | r # rs \<Rightarrow> Some (py_strip (snd (last (r # rs)))))
   \<and> extract_specifications (table_page colour_rows) = [([39068, 33394], [34013])]"
proof
  show "map_of (extract_specifications pg) k =
     (case filter (binds k) (scanned pg) of
        [] \<Rightarrow> None
      | r # rs \<Rightarrow> Some (py_strip (snd (last (r # rs)))))"
    by (simp add: extract_specifications_foldl map_of_foldl_bind_row split: list.splits)
  show "extract_specifications (table_page colour_rows) = [([39068, 33394], [34013])]"
    by (rule colour_table)
qed

theorem specs_last_write_wins_witness:
  "filter (binds [39068, 33394]) (scanned (table_page colour_rows))
     = [([39068, 33394], [32418]), ([39068, 33394], [34013])]
   \<and> map_of (extract_specifications (table_page colour_rows)) [39068, 33394] = Some [34013]"
proof -
  have sc: "scanned (table_page colour_rows)
              = [([39068, 33394], [32418]), ([39068, 33394], [34013])]"
    by (simp add: scanned_def table_page_def blank_page_def table_element_def
          row_element_def text_element_def colour_rows_def)
  have st: "py_strip [34013] = [34013]" "py_strip [32418] = [32418]"
           "py_strip [39068, 33394] = [39068, 33394]"
    by (simp_all add: py_strip_def py_isspace_def)
  show ?thesis
    using specs_last_write_wins [of "table_page colour_rows" "[39068, 33394]"]
    by (simp add: sc binds_def st)
qed

section \<open>Properties of the price patterns\<close>

lemma matches_Lit:
  "k \<in> set (matches (Lit c # items) t) \<Longrightarrow>
     \<exists>xs k'. t = c # xs \<and> k = Suc k' \<and> k' \<in> set (matches items xs)"
  by (cases t) (auto simp: matches.simps split: if_splits)

lemma matches_Plus:
  "k \<in> set (matches (Plus cls # items) t) \<Longrightarrow>
     \<exists>n m. 1 \<le> n \<and> n \<le> length (takeWhile cls t) \<and> m \<in> set (matches items (drop n t))
           \<and> k = n + m"
  by (auto simp: matches.simps simp del: upt_Suc)

lemma findall_no_match:
  "matches items s = [] \<Longrightarrow> findall items s = (case s of [] \<Rightarrow> [] | x # xs \<Rightarrow> findall items xs)"
  by (subst findall.simps) simp

lemma findall_match:
  "matches items s = k # ks \<Longrightarrow>
     findall items s = take k s # (if s = [] then [] else findall items (drop (max 1 k) s))"
  by (subst findall.simps) simp

lemma findall_elem:
  "x \<in> set (findall items s) \<Longrightarrow> \<exists>t k. suffix t s \<and> k \<in> set (matches items t) \<and> x = take k t"
proof (induction items s rule: findall.induct)
  case (1 items s)
  show ?case
  proof (cases "matches items s")
    case Nil
    show ?thesis
    proof (cases s)
      case empty: Nil
      have "findall items s = []"
        using findall_no_match[OF Nil] empty by simp
      with "1.prems" show ?thesis by simp
    next
      case (Cons y ys)
      have "findall items s = findall items ys"
        using findall_no_match[OF Nil] Cons by simp
      with "1.prems" have "x \<in> set (findall items ys)" by simp
      from "1.IH"(1)[OF Nil Cons this]
      obtain t k where tk: "suffix t ys" "k \<in> set (matches items t)" "x = take k t" by blast
      from tk(1) Cons have "suffix t s" by (simp add: suffix_ConsI)
      with tk show ?thesis by blast
    qed
  next
    case (Cons k ks)
    then have here: "k \<in> set (matches items s)" by simp
    have "set (findall items s)
            = insert (take k s) (if s = [] then {} else set (findall items (drop (max 1 k) s)))"
      using findall_match[OF Cons] by simp
    with "1.prems" have "x = take k s \<or> (s \<noteq> [] \<and> x \<in> set (findall items (drop (max 1 k) s)))"
      by (cases "s = []") simp_all
    then show ?thesis
    proof
      assume "x = take k s"
      with here show ?thesis by (intro exI[of _ s] exI[of _ k]) simp
    next
      assume a: "s \<noteq> [] \<and> x \<in> set (findall items (drop (max 1 k) s))"
      then have ne: "s \<noteq> []" and x: "x \<in> set (findall items (drop (max 1 k) s))" by simp_all
      from "1.IH"(2)[OF Cons ne x] obtain t k' where
        tk: "suffix t (drop (max 1 k) s)" "k' \<in> set (matches items t)" "x = take k' t" by blast
      from tk(1) have "suffix t s" by (meson suffix_drop suffix_order.order_trans)
      with tk show ?thesis by blast
    qed
  qed
qed

lemma take_hd: "0 < k \<Longrightarrow> t \<noteq> [] \<Longrightarrow> take k t \<noteq> [] \<and> hd (take k t) = hd t"
  by (cases t; cases k) auto

lemma shape_Lit:
  "k \<in> set (matches (Lit c # items) t) \<Longrightarrow> take k t \<noteq> [] \<and> hd (take k t) = c"
  using matches_Lit[of k c items t] by auto

lemma shape_Plus:
  "k \<in> set (matches (Plus cls # items) t) \<Longrightarrow> take k t \<noteq> [] \<and> cls (hd (take k t))"
proof -
  assume "k \<in> set (matches (Plus cls # items) t)"
  then obtain n m where n: "1 \<le> n" "n \<le> length (takeWhile cls t)" and k: "k = n + m"
    using matches_Plus by blast
  from n have ne: "takeWhile cls t \<noteq> []" by auto
  then have t: "t \<noteq> []" by auto
  from ne have "cls (hd t)" by (cases t) (auto split: if_splits)
  with take_hd[of k t] t n k show ?thesis by simp
qed

lemma take_takeWhile:
  "k \<le> length (takeWhile cls xs) \<Longrightarrow> take k xs = take k (takeWhile cls xs)"
proof -
  assume le: "k \<le> length (takeWhile cls xs)"
  have "take k xs = take k (takeWhile cls xs @ dropWhile cls xs)" by simp
  also have "\<dots> = take k (takeWhile cls xs)" using le by (simp del: takeWhile_dropWhile_id)
  finally show ?thesis .
qed

lemma shape_Lit_Plus:
  assumes "k \<in> set (matches [Lit c, Plus cls] t)"
  shows "list_all cls (tl (take k t))"
proof -
  from matches_Lit[OF assms] obtain xs k' where
    t: "t = c # xs" and k: "k = Suc k'" and k': "k' \<in> set (matches [Plus cls] xs)" by blast
  from matches_Plus[OF k'] have le: "k' \<le> length (takeWhile cls xs)"
    by (auto simp: matches.simps)
  have "list_all cls (take k' (takeWhile cls xs))"
    by (auto simp: list_all_iff dest: in_set_takeD set_takeWhileD)
  with take_takeWhile[OF le] show ?thesis using t k by simp
qed

lemma regex_prices_shape:
  assumes "x \<in> set (regex_prices text)"
  shows "regex_shape x"
proof -
  from assms obtain p where p: "p \<in> set price_patterns" and x: "x \<in> set (findall p text)"
    by (auto simp: regex_prices_def)
  from findall_elem[OF x] obtain t k where k: "k \<in> set (matches p t)" and xt: "x = take k t"
    by blast
  from p consider "p = [Lit 65509, Plus money_class]" | "p = [Lit 165, Plus money_class]"
    | items where "p = Plus is_digit # items"
    by (auto simp: price_patterns_def)
  then show ?thesis
  proof cases
    case 1
    with k have "k \<in> set (matches (Lit 65509 # [Plus money_class]) t)" by simp
    from shape_Lit[OF this] show ?thesis
      unfolding xt regex_shape_def by blast
  next
    case 2
    with k have m: "k \<in> set (matches [Lit 165, Plus money_class] t)" by simp
    from shape_Lit[OF m] shape_Lit_Plus[OF m] show ?thesis
      unfolding xt regex_shape_def by blast
  next
    case 3
    with k have "k \<in> set (matches (Plus is_digit # items) t)" by simp
    from shape_Plus[OF this] show ?thesis
      unfolding xt regex_shape_def by blast
  qed
qed

lemma yen_range_shape: "\<not> regex_shape yen_range"
  by (simp add: regex_shape_def yen_range_def yen_159_def yen_179_def u_def digit_defs money_class_def)

lemma yen_range_not_regex: "yen_range \<notin> set (regex_prices text)"
  using regex_prices_shape yen_range_shape by blast


lemma matches_Lit_Plus_eq:
  "matches [Lit c, Plus cls] s =
     (case s of
        [] \<Rightarrow> []
      | x # xs \<Rightarrow> if x = c then map Suc (rev [1 ..< Suc (length (takeWhile cls xs))]) else [])"
  by (simp add: matches.simps split: list.splits del: upt_Suc)

lemma takeWhile_stops:
  "\<not> cls c \<Longrightarrow> length (takeWhile cls (pre @ c # rest)) \<le> length pre"
  by (induction pre) auto

lemma takeWhile_run:
  "\<forall>d \<in> set ds. cls d \<Longrightarrow> post = [] \<or> \<not> cls (hd post)
   \<Longrightarrow> takeWhile cls (ds @ post) = ds"
  by (induction ds) (auto simp: takeWhile_eq_Nil_iff hd_conv_nth neq_Nil_conv)

lemma findall_finds_marked_run:
  assumes c: "\<not> cls c" and ds: "ds \<noteq> []" "\<forall>d \<in> set ds. cls d"
    and post: "post = [] \<or> \<not> cls (hd post)"
  shows "c # ds \<in> set (findall [Lit c, Plus cls] (pre @ c # ds @ post))"
proof (induction pre rule: length_induct)
  case (1 pre)
  show ?case
  proof (cases pre)
    case Nil
    have run: "length (takeWhile cls (ds @ post)) = length ds"
      using takeWhile_run[OF ds(2) post] by simp
    from ds(1) have pos: "Suc 0 \<le> length ds" by (cases ds) simp_all
    have "matches [Lit c, Plus cls] (c # ds @ post)
            = Suc (length ds) # map Suc (rev [1 ..< length ds])"
      using pos by (simp add: matches_Lit_Plus_eq run)
    from findall_match[OF this] show ?thesis
      using Nil by simp
  next
    case (Cons x pre')
    let ?rest = "pre' @ c # ds @ post"
    let ?n = "length (takeWhile cls ?rest)"
    have le: "?n \<le> length pre'" using takeWhile_stops[of cls c pre' "ds @ post"] c by simp
    show ?thesis
    proof (cases "x = c \<and> 0 < ?n")
      case False
      then have "matches [Lit c, Plus cls] (x # ?rest) = []"
        by (auto simp: matches_Lit_Plus_eq)
      from findall_no_match[OF this]
      have "findall [Lit c, Plus cls] (x # ?rest) = findall [Lit c, Plus cls] ?rest" by simp
      moreover have "c # ds \<in> set (findall [Lit c, Plus cls] ?rest)"
        using "1.IH" Cons by simp
      ultimately show ?thesis using Cons by simp
    next
      case True
      then have "x = c" and "Suc 0 \<le> ?n" by (simp_all add: Suc_le_eq)
      then have "matches [Lit c, Plus cls] (x # ?rest) = Suc ?n # map Suc (rev [1 ..< ?n])"
        by (simp add: matches_Lit_Plus_eq)
      from findall_match[OF this]
      have "set (findall [Lit c, Plus cls] (drop ?n ?rest))
              \<subseteq> set (findall [Lit c, Plus cls] (x # ?rest))"
        by auto
      moreover have "drop ?n ?rest = drop ?n pre' @ c # ds @ post"
        using le by simp
      moreover have "c # ds \<in> set (findall [Lit c, Plus cls] (drop ?n pre' @ c # ds @ post))"
        using "1.IH" Cons by simp
      ultimately show ?thesis using Cons by auto
    qed
  qed
qed

lemma yen_199_regex:
  assumes "post = [] \<or> \<not> money_class (hd post)"
  shows "yen_199 \<in> set (regex_prices (pre @ yen_199 @ post))"
proof -
  have a: "\<not> money_class 165" by (simp add: money_class_def digit_defs)
  have b: "u ''199.00'' \<noteq> []" "\<forall>d \<in> set (u ''199.00''). money_class d"
    by (simp_all add: u_def money_class_def digit_defs)
  from findall_finds_marked_run[OF a b assms, of pre]
  have "yen_199 \<in> set (findall [Lit 165, Plus money_class] (pre @ yen_199 @ post))"
    by (simp add: yen_199_def)
  then show ?thesis
    unfolding regex_prices_def price_patterns_def by simp
qed

lemma example_regex:
  "regex_prices price_example_text = [yen_199, yen_159, yen_179]"
  by (simp add: regex_prices_def price_patterns_def price_example_text_def yen_range_def
        yen_199_def yen_159_def yen_179_def u_def findall.simps matches.simps
        money_class_def digit_defs)

lemma fullwidth_digit_joins:
  "regex_prices (yen_199 @ [65297]) = [yen_199 @ [65297]]"
  by (simp add: regex_prices_def price_patterns_def yen_199_def u_def findall.simps
        matches.simps money_class_def digit_defs)

section \<open>Properties of the price extractor\<close>

lemma price_elements_eq: "price_elements es prices = prices @ element_price_texts es"
proof (induction es arbitrary: prices)
  case Nil
  show ?case by (simp add: element_price_texts_def)
next
  case (Cons e es)
  show ?case
  proof (cases "el_text e")
    case Raised
    then show ?thesis by (simp add: element_price_texts_def readable_def)
  next
    case (Returned t)
    then show ?thesis
      by (simp add: Cons.IH Let_def element_price_texts_def readable_def stripped_text_def)
  qed
qed

lemma price_selector_loop_eq:
  "price_selector_loop pg sels prices = prices @ selector_price_texts pg sels"
proof (induction sels arbitrary: prices)
  case Nil
  show ?case by (simp add: selector_price_texts_def)
next
  case (Cons sel sels)
  show ?case
    by (cases "find_elements_css pg sel")
       (simp_all add: Cons.IH price_elements_eq selector_price_texts_def)
qed

lemma collected_prices_eq:
  "collected_prices pg =
     selector_price_texts pg price_selectors
     @ (case body_text pg of Raised \<Rightarrow> [] | Returned t \<Rightarrow> regex_prices t)"
  by (simp add: collected_prices_def Let_def price_selector_loop_eq split: attempt.splits)

lemma price_selector_loop_set:
  "set (price_selector_loop pg sels prices) \<subseteq> set prices \<union> set (selector_price_texts pg sels)"
  by (simp add: price_selector_loop_eq)

lemma unique_prices_shape:
  assumes "lists_each_once set_list"
  shows "(unique_prices set_list prices = None) = (prices = [])"
    and "unique_prices set_list prices = Some ps \<Longrightarrow>
           ps \<noteq> [] \<and> length ps \<le> 3 \<and> distinct ps \<and> set ps \<subseteq> set prices
           \<and> ps = take 3 (set_list prices)
           \<and> distinct (set_list prices) \<and> set (set_list prices) = set prices"
proof -
  show "(unique_prices set_list prices = None) = (prices = [])"
    by (simp add: unique_prices_def)
  assume r: "unique_prices set_list prices = Some ps"
  then have ne: "prices \<noteq> []" and ps: "ps = take 3 (set_list prices)"
    by (auto simp: unique_prices_def split: if_splits)
  from assms have d: "distinct (set_list prices)" and s: "set (set_list prices) = set prices"
    by (auto simp: lists_each_once_def)
  from ne s have "set_list prices \<noteq> []" by auto
  with ps have "ps \<noteq> []" by simp
  moreover have "set ps \<subseteq> set prices" using ps s set_take_subset[of 3 "set_list prices"] by simp
  ultimately show "ps \<noteq> [] \<and> length ps \<le> 3 \<and> distinct ps \<and> set ps \<subseteq> set prices
           \<and> ps = take 3 (set_list prices)
           \<and> distinct (set_list prices) \<and> set (set_list prices) = set prices"
    using ps d s by simp
qed

lemma collected_prices_set:
  "set (collected_prices pg) \<subseteq>
     set (selector_price_texts pg price_selectors)
     \<union> (case body_text pg of Raised \<Rightarrow> {} | Returned t \<Rightarrow> set (regex_prices t))"
  by (auto simp: collected_prices_eq split: attempt.splits)

lemma batch_prices_eq:
  "extract_price_batch set_list pg =
     (case body_text pg of
        Raised \<Rightarrow> Raised
      | Returned t \<Rightarrow>
          Returned (unique_prices set_list
                      (selector_price_texts pg price_selectors_batch @ regex_prices t)))"
  by (simp add: extract_price_batch_def Let_def price_selector_loop_eq split: attempt.splits)

lemma batch_prices_set:
  "extract_price_batch set_list pg = Returned r \<Longrightarrow>
     \<exists>t. body_text pg = Returned t
         \<and> r = unique_prices set_list (price_selector_loop pg price_selectors_batch [] @ regex_prices t)
         \<and> set (price_selector_loop pg price_selectors_batch [] @ regex_prices t)
             \<subseteq> set (selector_price_texts pg price_selectors_batch) \<union> set (regex_prices t)"
  using price_selector_loop_set[of pg price_selectors_batch "[]"]
  by (auto simp: extract_price_batch_def Let_def split: attempt.splits)

lemma example_collected:
  "collected_prices (body_page price_example_text) = [yen_199, yen_159, yen_179]"
proof -
  have "price_selector_loop (body_page price_example_text) price_selectors [] = []"
    by (simp add: price_selectors_def body_page_def blank_page_def)
  moreover have "body_text (body_page price_example_text) = Returned price_example_text"
    by (simp add: body_text_def body_page_def text_element_def)
  ultimately show ?thesis
    by (simp add: collected_prices_def example_regex)
qed

lemma example_distinct: "distinct [yen_199, yen_159, yen_179]"
  by (simp add: yen_199_def yen_159_def yen_179_def u_def)

lemma example_price:
  "extract_price remdups (body_page price_example_text) = Some [yen_199, yen_159, yen_179]"
  using example_distinct
  by (simp add: extract_price_def unique_prices_def example_collected)

lemma remdups_lists_each_once: "lists_each_once remdups"
  by (simp add: lists_each_once_def)

lemma newest_first_lists_each_once: "lists_each_once newest_first"
  by (simp add: lists_each_once_def newest_first_def)

lemma four_regex:
  "regex_prices four_prices_text = [[165, 49], [165, 50], [165, 51], [165, 52]]"
  by (simp add: regex_prices_def price_patterns_def four_prices_text_def
        findall.simps matches.simps money_class_def digit_defs)

lemma four_collected:
  "collected_prices (body_page four_prices_text) = [[165, 49], [165, 50], [165, 51], [165, 52]]"
proof -
  have "selector_price_texts (body_page four_prices_text) price_selectors = []"
    by (simp add: selector_price_texts_def price_selectors_def body_page_def blank_page_def
          element_price_texts_def)
  moreover have "body_text (body_page four_prices_text) = Returned four_prices_text"
    by (simp add: body_text_def body_page_def text_element_def)
  ultimately show ?thesis
    by (simp add: collected_prices_eq four_regex)
qed

lemma four_price:
  "extract_price newest_first (body_page four_prices_text)
     = Some [[165, 52], [165, 51], [165, 50]]"
  by (simp add: extract_price_def unique_prices_def four_collected newest_first_def)

lemma blank_batch_price: "extract_price_batch set_list blank_page = Raised"
  by (simp add: batch_prices_eq body_text_def blank_page_def)

text \<open>
  C4, as stated: for every page the extractor returns an absent value or a list, and the
  cap keeps the first 3 matches of the deduplicated set. With a set that lists its
  elements from the last inserted to the first, the page whose body text holds four
  prices gives the last three of them: the first match is dropped. And the extractor of
  \<open>batch_1688.py\<close> returns nothing on a page whose body cannot be read: it raises.
\<close>

theorem price_first_three_counterexample:
  "lists_each_once newest_first
   \<and> collected_prices (body_page four_prices_text) = [[165, 49], [165, 50], [165, 51], [165, 52]]
   \<and> extract_price newest_first (body_page four_prices_text)
       = Some [[165, 52], [165, 51], [165, 50]]
   \<and> [165, 49] \<notin> set [[165, 52], [165, 51], [165, 50 :: nat]]
   \<and> extract_price_batch newest_first blank_page = Raised"
  using newest_first_lists_each_once four_collected four_price blank_batch_price
  by simp

lemma unique_prices_exact:
  assumes "lists_each_once set_list" and "unique_prices set_list prices = Some ps"
  shows "ps = take 3 (set_list prices) \<and> distinct ps
         \<and> length ps = min 3 (card (set prices)) \<and> set ps \<subseteq> set prices
         \<and> (card (set prices) \<le> 3 \<longrightarrow> set ps = set prices)"
proof -
  from unique_prices_shape(2)[OF assms]
  have ps: "ps = take 3 (set_list prices)" and d: "distinct (set_list prices)"
    and s: "set (set_list prices) = set prices" and dp: "distinct ps"
    and sub: "set ps \<subseteq> set prices"
    by blast+
  from d s have len: "length (set_list prices) = card (set prices)"
    using distinct_card by fastforce
  from ps len have l: "length ps = min 3 (card (set prices))" by simp
  have all: "card (set prices) \<le> 3 \<longrightarrow> set ps = set prices"
  proof
    assume "card (set prices) \<le> 3"
    with len have "take 3 (set_list prices) = set_list prices" by simp
    with ps s show "set ps = set prices" by simp
  qed
  show ?thesis by (intro conjI ps dp l sub all)
qed

text \<open>
  C4, amended: the candidates collected are exactly the selector texts (stripped,
  containing a currency marker or a dot, of the elements read before a raise under each
  selector) followed by the matches of the price patterns in the body text.
  \<open>SimpleBatch1688.extract_price\<close> returns \<open>None\<close> exactly when there is no candidate, and
  otherwise the first 3 elements of the candidates as the set lists them, which need not
  be the order of discovery: a list of pairwise distinct strings whose length is the
  smaller of 3 and the number of distinct candidates, holding all of them when there are
  at most 3. \<open>Batch1688Crawler.extract_price\<close> raises exactly when the body text cannot
  be read, and otherwise returns the like for its selector list.
\<close>

theorem price_candidates_exact:
  assumes "lists_each_once set_list"
  shows "collected_prices pg =
           selector_price_texts pg price_selectors
           @ (case body_text pg of Raised \<Rightarrow> [] | Returned t \<Rightarrow> regex_prices t)
    \<and> (extract_price set_list pg = None) = (collected_prices pg = [])
    \<and> (\<forall>ps. extract_price set_list pg = Some ps \<longrightarrow>
           ps = take 3 (set_list (collected_prices pg)) \<and> distinct ps
           \<and> length ps = min 3 (card (set (collected_prices pg)))
           \<and> set ps \<subseteq> set (collected_prices pg)
           \<and> (card (set (collected_prices pg)) \<le> 3 \<longrightarrow> set ps = set (collected_prices pg)))
    \<and> (extract_price_batch set_list pg = Raised) = (body_text pg = Raised)
    \<and> (\<forall>t. body_text pg = Returned t \<longrightarrow>
           (\<exists>r. extract_price_batch set_list pg = Returned r
              \<and> (r = None)
                  = (selector_price_texts pg price_selectors_batch @ regex_prices t = [])
              \<and> (\<forall>ps. r = Some ps \<longrightarrow>
                    ps = take 3 (set_list (selector_price_texts pg price_selectors_batch
                                            @ regex_prices t))
                    \<and> distinct ps
                    \<and> length ps
                        = min 3 (card (set (selector_price_texts pg price_selectors_batch
                                            @ regex_prices t))))))"
proof (intro conjI allI impI)
  show "collected_prices pg =
           selector_price_texts pg price_selectors
           @ (case body_text pg of Raised \<Rightarrow> [] | Returned t \<Rightarrow> regex_prices t)"
    by (rule collected_prices_eq)
  show "(extract_price set_list pg = None) = (collected_prices pg = [])"
    by (simp add: extract_price_def unique_prices_def)
  show "(extract_price_batch set_list pg = Raised) = (body_text pg = Raised)"
    by (simp add: batch_prices_eq split: attempt.splits)
next
  fix ps assume "extract_price set_list pg = Some ps"
  then have u: "unique_prices set_list (collected_prices pg) = Some ps"
    by (simp add: extract_price_def)
  from unique_prices_exact[OF assms u]
  show "ps = take 3 (set_list (collected_prices pg))" "distinct ps"
    "length ps = min 3 (card (set (collected_prices pg)))"
    "set ps \<subseteq> set (collected_prices pg)"
    by blast+
  assume "card (set (collected_prices pg)) \<le> 3"
  with unique_prices_exact[OF assms u] show "set ps = set (collected_prices pg)" by blast
next
  fix t assume t: "body_text pg = Returned t"
  let ?c = "selector_price_texts pg price_selectors_batch @ regex_prices t"
  have r: "extract_price_batch set_list pg = Returned (unique_prices set_list ?c)"
    by (simp add: batch_prices_eq t)
  have n: "(unique_prices set_list ?c = None) = (?c = [])"
    by (simp add: unique_prices_def)
  have e: "\<forall>ps. unique_prices set_list ?c = Some ps \<longrightarrow>
             ps = take 3 (set_list ?c) \<and> distinct ps \<and> length ps = min 3 (card (set ?c))"
    using unique_prices_exact[OF assms] by blast
  show "\<exists>r. extract_price_batch set_list pg = Returned r
              \<and> (r = None) = (?c = [])
              \<and> (\<forall>ps. r = Some ps \<longrightarrow>
                    ps = take 3 (set_list ?c) \<and> distinct ps
                    \<and> length ps = min 3 (card (set ?c)))"
    by (intro exI[of _ "unique_prices set_list ?c"] conjI r n e)
qed

theorem price_candidates_exact_witness:
  "lists_each_once newest_first
   \<and> extract_price newest_first (body_page four_prices_text)
       = Some [[165, 52], [165, 51], [165, 50]]
   \<and> length [[165, 52], [165, 51], [165, 50 :: nat]]
       = min 3 (card (set (collected_prices (body_page four_prices_text))))
   \<and> distinct [[165, 52], [165, 51], [165, 50 :: nat]]
   \<and> extract_price remdups (body_page price_example_text) = Some [yen_199, yen_159, yen_179]
   \<and> set [yen_199, yen_159, yen_179] = set (collected_prices (body_page price_example_text))
   \<and> extract_price_batch newest_first blank_page = Raised"
proof -
  have three: "card (set (collected_prices (body_page price_example_text))) \<le> 3"
    using example_distinct by (simp add: example_collected distinct_card)
  have raised: "body_text blank_page = Raised"
    by (simp add: body_text_def blank_page_def)
  note four = price_candidates_exact
                [OF newest_first_lists_each_once, of "body_page four_prices_text",
                 THEN conjunct2, THEN conjunct2, THEN conjunct1, rule_format, OF four_price]
  from four
  have a: "length [[165, 52], [165, 51], [165, 50 :: nat]]
             = min 3 (card (set (collected_prices (body_page four_prices_text))))
           \<and> distinct [[165, 52], [165, 51], [165, 50 :: nat]]"
    by blast
  note ex = price_candidates_exact
              [OF remdups_lists_each_once, of "body_page price_example_text",
               THEN conjunct2, THEN conjunct2, THEN conjunct1, rule_format, OF example_price]
  from ex three
  have b: "set [yen_199, yen_159, yen_179] = set (collected_prices (body_page price_example_text))"
    by blast
  from price_candidates_exact [OF newest_first_lists_each_once, of blank_page] raised
  have c: "extract_price_batch newest_first blank_page = Raised" by simp
  from a b c newest_first_lists_each_once four_price example_price show ?thesis by simp
qed

text \<open>
  C5, as stated: a page whose body text contains the strings U+00A5 \<open>199.00\<close> and
  U+00A5 \<open>159.00-\<close>U+00A5 \<open>179.00\<close> has both among the returned candidates. On the page
  whose body text is the two strings separated by a blank, the candidates collected are
  the first string and the two halves of the range; the range string is not among them,
  whatever the order of the set.
\<close>

theorem price_example_counterexample:
  "py_in yen_199 price_example_text
   \<and> py_in yen_range price_example_text
   \<and> collected_prices (body_page price_example_text) = [yen_199, yen_159, yen_179]
   \<and> yen_range \<notin> set [yen_199, yen_159, yen_179]
   \<and> extract_price remdups (body_page price_example_text) = Some [yen_199, yen_159, yen_179]"
proof -
  have "py_in yen_199 price_example_text" "py_in yen_range price_example_text"
    by (simp_all add: price_example_text_def yen_range_def yen_199_def yen_159_def yen_179_def
          u_def)
  moreover have "yen_range \<notin> set [yen_199, yen_159, yen_179]"
    by (simp add: yen_range_def yen_199_def yen_159_def yen_179_def u_def)
  ultimately show ?thesis
    using example_collected example_price by simp
qed

text \<open>
  C5, amended: no match of a price pattern is the range string (the yen pattern ends at
  the hyphen), so the range string is among the returned candidates only when it is the
  text of an element found by a price selector; the string U+00A5 \<open>199.00\<close> is among the
  collected candidates whenever the body text contains it not directly followed by a
  decimal digit (of any script, as \<open>\d\<close> reads them), a comma or a dot; and every
  collected candidate is returned when there are at most three distinct ones.
\<close>

theorem price_example_amended:
  assumes "lists_each_once set_list"
  shows "yen_range \<notin> set (regex_prices text)
    \<and> (extract_price set_list pg = Some ps \<and> yen_range \<in> set ps
         \<longrightarrow> yen_range \<in> set (selector_price_texts pg price_selectors))
    \<and> (extract_price_batch set_list pg = Returned (Some ps) \<and> yen_range \<in> set ps
         \<longrightarrow> yen_range \<in> set (selector_price_texts pg price_selectors_batch))
    \<and> (body_text pg = Returned (pre @ yen_199 @ post) \<and> (post = [] \<or> \<not> money_class (hd post))
         \<longrightarrow> yen_199 \<in> set (collected_prices pg))
    \<and> (extract_price set_list pg = Some ps \<and> card (set (collected_prices pg)) \<le> 3
         \<longrightarrow> set ps = set (collected_prices pg))"
proof (intro conjI impI)
  show "yen_range \<notin> set (regex_prices text)"
    by (rule yen_range_not_regex)
next
  assume a: "extract_price set_list pg = Some ps \<and> yen_range \<in> set ps"
  then have "unique_prices set_list (collected_prices pg) = Some ps"
    by (simp add: extract_price_def)
  from unique_prices_shape(2)[OF assms this] a
  have "yen_range \<in> set (collected_prices pg)" by auto
  with collected_prices_set[of pg] yen_range_not_regex
  show "yen_range \<in> set (selector_price_texts pg price_selectors)"
    by (auto split: attempt.splits)
next
  assume a: "extract_price_batch set_list pg = Returned (Some ps) \<and> yen_range \<in> set ps"
  then have "extract_price_batch set_list pg = Returned (Some ps)" by simp
  from batch_prices_set[OF this] obtain t where
    r: "Some ps = unique_prices set_list
                  (price_selector_loop pg price_selectors_batch [] @ regex_prices t)"
    and sub: "set (price_selector_loop pg price_selectors_batch [] @ regex_prices t)
             \<subseteq> set (selector_price_texts pg price_selectors_batch) \<union> set (regex_prices t)"
    by blast
  from unique_prices_shape(2)[OF assms r[symmetric]] a sub
  have "yen_range \<in> set (selector_price_texts pg price_selectors_batch) \<union> set (regex_prices t)"
    by blast
  with yen_range_not_regex
  show "yen_range \<in> set (selector_price_texts pg price_selectors_batch)" by blast
next
  assume a: "body_text pg = Returned (pre @ yen_199 @ post)
             \<and> (post = [] \<or> \<not> money_class (hd post))"
  then have "yen_199 \<in> set (regex_prices (pre @ yen_199 @ post))"
    using yen_199_regex by blast
  with a show "yen_199 \<in> set (collected_prices pg)"
    by (simp add: collected_prices_def Let_def)
next
  assume a: "extract_price set_list pg = Some ps \<and> card (set (collected_prices pg)) \<le> 3"
  then have "unique_prices set_list (collected_prices pg) = Some ps"
    by (simp add: extract_price_def)
  from unique_prices_shape(2)[OF assms this]
  have ps: "ps = take 3 (set_list (collected_prices pg))"
    and d: "distinct (set_list (collected_prices pg))"
    and s: "set (set_list (collected_prices pg)) = set (collected_prices pg)"
    by simp_all
  from d s have "length (set_list (collected_prices pg)) = card (set (collected_prices pg))"
    using distinct_card by fastforce
  with a ps have "ps = set_list (collected_prices pg)" by simp
  with s show "set ps = set (collected_prices pg)" by simp
qed

theorem price_example_amended_witness:
  "yen_range \<notin> set (regex_prices price_example_text)
   \<and> yen_199 \<in> set (collected_prices (body_page price_example_text))
   \<and> set [yen_199, yen_159, yen_179] = set (collected_prices (body_page price_example_text))"
proof -
  have body: "body_text (body_page price_example_text)
                = Returned ([] @ yen_199 @ (u '' '' @ yen_range))"
    by (simp add: body_text_def body_page_def text_element_def price_example_text_def)
  have post: "\<not> money_class (hd (u '' '' @ yen_range))"
    by (simp add: u_def money_class_def digit_defs)
  have small: "card (set (collected_prices (body_page price_example_text))) \<le> 3"
    using example_distinct by (simp add: example_collected distinct_card)
  show ?thesis
    using price_example_amended
            [OF remdups_lists_each_once, of price_example_text "body_page price_example_text"
               "[yen_199, yen_159, yen_179]" "[]" "u '' '' @ yen_range"]
          example_price body post small
    by simp
qed

section \<open>Properties of the image collector\<close>

lemma make_image_url: "make_image e url origin = Returned d \<Longrightarrow> img_url d = url"
  by (auto simp: make_image_def split: attempt.splits)

lemma collector_ok_add:
  "collector_ok st \<Longrightarrow> url \<notin> snd st \<Longrightarrow> img_url d = url
   \<Longrightarrow> collector_ok (fst st @ [d], insert url (snd st))"
  by (auto simp: collector_ok_def)

lemma tag_step_ok: "collector_ok st \<Longrightarrow> collector_ok (tag_step lower img st)"
  by (auto simp: tag_step_def split: attempt.splits option.splits
           intro!: collector_ok_add dest: make_image_url)

lemma regex_step_ok: "collector_ok st \<Longrightarrow> collector_ok (regex_step lower url st)"
  by (auto simp: regex_step_def intro!: collector_ok_add)

lemma lazy_step_ok: "collector_ok st \<Longrightarrow> collector_ok (lazy_step lower img st)"
  by (auto simp: lazy_step_def split: attempt.splits option.splits
           intro!: collector_ok_add dest: make_image_url)

lemma fold_ok:
  "(\<And>x st. collector_ok st \<Longrightarrow> collector_ok (f x st)) \<Longrightarrow> collector_ok st
   \<Longrightarrow> collector_ok (fold f xs st)"
  by (induction xs arbitrary: st) auto

lemma container_imgs_ok:
  "collector_ok st \<Longrightarrow> collector_ok (fst (container_imgs lower selector imgs st))"
proof (induction imgs arbitrary: st)
  case Nil
  then show ?case by simp
next
  case (Cons img imgs)
  show ?case
  proof (cases "get_best_image_url lower img")
    case None
    with Cons show ?thesis by simp
  next
    case (Some url)
    show ?thesis
    proof (cases "url \<in> snd st")
      case True
      with Some Cons show ?thesis by simp
    next
      case False
      show ?thesis
      proof (cases "make_image img url (u ''container_'' @ u selector)")
        case Raised
        with Some False Cons.prems show ?thesis by simp
      next
        case (Returned d)
        from collector_ok_add[OF Cons.prems False make_image_url[OF Returned]]
        have "collector_ok (fst st @ [d], insert url (snd st))" .
        from Cons.IH[OF this] Some False Returned show ?thesis by simp
      qed
    qed
  qed
qed

lemma containers_loop_ok:
  "collector_ok st \<Longrightarrow> collector_ok (fst (containers_loop lower selector cs st))"
proof (induction cs arbitrary: st)
  case Nil
  then show ?case by simp
next
  case (Cons c cs)
  show ?case
  proof (cases "el_find c ''img''")
    case Raised
    with Cons.prems show ?thesis by simp
  next
    case (Returned imgs)
    obtain st' ok where r: "container_imgs lower selector imgs st = (st', ok)" by (cases "container_imgs lower selector imgs st")
    from container_imgs_ok[OF Cons.prems, of lower selector imgs] r have ok': "collector_ok st'" by simp
    show ?thesis
      using Returned r ok' Cons.IH[OF ok'] by (cases ok) simp_all
  qed
qed

lemma container_step_ok: "collector_ok st \<Longrightarrow> collector_ok (container_step lower pg selector st)"
  by (auto simp: container_step_def containers_loop_ok split: attempt.splits)

lemma regex_pass_ok: "collector_ok st \<Longrightarrow> collector_ok (regex_pass lower findall_i pg st)"
  unfolding regex_pass_def
  by (auto split: attempt.splits intro!: fold_ok regex_step_ok)

lemma collect_images_distinct:
  assumes "collect_images lower findall_i js pg pg' = Some (Returned images)"
  shows "distinct (map img_url images)"
proof -
  from assms obtain img_elements new_img_elements where
    images: "images = fst (fold (lazy_step lower) new_img_elements
                (fold (container_step lower pg) image_containers
                   (regex_pass lower findall_i pg (fold (tag_step lower) img_elements ([], {})))))"
    by (auto simp: collect_images_def Let_def split: attempt.splits option.splits)
  have a: "collector_ok ([], {})" by (simp add: collector_ok_def)
  have b: "collector_ok (fold (tag_step lower) img_elements ([], {}))"
    by (rule fold_ok[OF tag_step_ok a])
  have c: "collector_ok (regex_pass lower findall_i pg (fold (tag_step lower) img_elements ([], {})))"
    by (rule regex_pass_ok[OF b])
  have d: "collector_ok (fold (container_step lower pg) image_containers
                   (regex_pass lower findall_i pg (fold (tag_step lower) img_elements ([], {}))))"
    by (rule fold_ok[OF container_step_ok c])
  have "collector_ok (fold (lazy_step lower) new_img_elements
                (fold (container_step lower pg) image_containers
                   (regex_pass lower findall_i pg (fold (tag_step lower) img_elements ([], {})))))"
    by (rule fold_ok[OF lazy_step_ok d])
  with images show ?thesis by (simp add: collector_ok_def)
qed

lemma sort_images_distinct:
  "distinct (map img_url images) \<Longrightarrow> distinct (map img_url (sort_images_by_quality lower images))"
  by (simp add: sort_images_by_quality_def distinct_map)

lemma sort_images_descending:
  "sorted_wrt (\<lambda>a b. get_image_priority lower b \<le> get_image_priority lower a) (sort_images_by_quality lower images)"
proof -
  have "sorted (map (\<lambda>img. - get_image_priority lower img) (sort_images_by_quality lower images))"
    by (simp add: sort_images_by_quality_def)
  then show ?thesis by (simp add: sorted_map)
qed

lemma sort_images_stable:
  "filter (\<lambda>c. get_image_priority lower c = s) (sort_images_by_quality lower images)
     = filter (\<lambda>c. get_image_priority lower c = s) images"
proof -
  have "filter (\<lambda>c. - get_image_priority lower c = - s) (sort_images_by_quality lower images)
          = filter (\<lambda>c. - get_image_priority lower c = - s) images"
    unfolding sort_images_by_quality_def by (rule sort_key_stable)
  then show ?thesis by simp
qed

lemma scroll_segments_null: "scroll_segments js k vh JNull cur = Some ()"
  by (subst scroll_segments.simps) simp

lemma scroll_segments_no_viewport:
  "scroll_segments js k JNull ph cur = Some ()"
  by (subst scroll_segments.simps) (simp split: jsval.splits attempt.splits)

lemma scroll_segments_positive:
  "0 < v \<Longrightarrow> scroll_segments js k (JInt v) (JInt h) cur = Some ()"
proof (induction "nat (h - cur)" arbitrary: cur k rule: less_induct)
  case less
  show ?case
  proof (cases "cur < h")
    case False
    then show ?thesis by (subst scroll_segments.simps) simp
  next
    case True
    with less.prems have "nat (h - (cur + v)) < nat (h - cur)" by simp
    from less.hyps[OF this less.prems] show ?thesis
      by (subst scroll_segments.simps) (simp split: attempt.splits)
  qed
qed

lemma scroll_segments_returns:
  "vh = JNull \<or> (\<exists>v. vh = JInt v \<and> 0 < v) \<Longrightarrow> scroll_segments js k vh ph cur = Some ()"
  by (cases ph) (auto simp: scroll_segments_null scroll_segments_no_viewport
                        scroll_segments_positive)

lemma scroll_returns:
  "js 2 = Raised \<or> js 2 = Returned JNull \<or> (\<exists>v. js 2 = Returned (JInt v) \<and> 0 < v)
   \<Longrightarrow> scroll_to_load_images js = Some ()"
  unfolding scroll_to_load_images_def
  by (auto simp: scroll_segments_returns split: attempt.splits)

lemma scroll_segments_forever:
  assumes v: "v \<le> 0" and js: "\<forall>k. js k \<noteq> Raised" and cur: "cur < h"
  shows "scroll_segments js k (JInt v) (JInt h) cur = None"
proof -
  have never: "\<not> (js' = js \<and> vh = JInt v \<and> ph = JInt h \<and> c < h)"
    if "scroll_segments js' k' vh ph c = Some y" for js' k' vh ph c y
  proof (rule scroll_segments.raw_induct
           [where P = "\<lambda>js' k' vh ph c y. \<not> (js' = js \<and> vh = JInt v \<and> ph = JInt h \<and> c < h)",
            OF _ that], goal_cases)
    case (1 f js' k' vh ph c y)
    show ?case
    proof
      assume a: "js' = js \<and> vh = JInt v \<and> ph = JInt h \<and> c < h"
      with js obtain r where r: "js' k' = Returned r"
        by (cases "js' k'") auto
      from "1"(2) a r have "f js' (Suc k') vh ph (c + v) = Some y" by simp
      from "1"(1)[OF this] a v show False by simp
    qed
  qed
  show ?thesis
  proof (cases "scroll_segments js k (JInt v) (JInt h) cur")
    case None
    then show ?thesis .
  next
    case (Some y)
    from never[OF this] cur show ?thesis by simp
  qed
qed

lemma flat_window_never_returns: "scroll_to_load_images flat_window = None"
proof -
  have "scroll_segments flat_window 4 (JInt 0) (JInt 1) 0 = None"
    by (rule scroll_segments_forever) (simp_all add: flat_window_def)
  then show ?thesis
    by (simp add: scroll_to_load_images_def flat_window_def)
qed

subsection \<open>The collector on the example page\<close>

lemma url1: "u ''https://example.com/a.jpg'' = [104, 116, 116, 112, 115, 58, 47, 47, 101, 120, 97, 109, 112, 108, 101, 46, 99, 111, 109, 47, 97, 46, 106, 112, 103]"
  by (simp add: u_def)
lemma url2: "u ''https://cbu01.alicdn.com/x_800_b.jpg'' = [104, 116, 116, 112, 115, 58, 47, 47, 99, 98, 117, 48, 49, 46, 97, 108, 105, 99, 100, 110, 46, 99, 111, 109, 47, 120, 95, 56, 48, 48, 95, 98, 46, 106, 112, 103]"
  by (simp add: u_def)

lemma lower1: "lower_ascii (u ''https://example.com/a.jpg'') = u ''https://example.com/a.jpg''"
  by (simp add: u_def lower_ascii_def lower_char_def)
lemma lower2: "lower_ascii (u ''https://cbu01.alicdn.com/x_800_b.jpg'') = u ''https://cbu01.alicdn.com/x_800_b.jpg''"
  by (simp add: u_def lower_ascii_def lower_char_def)

lemma prod1:
  "is_product_image lower_ascii (u ''https://example.com/a.jpg'')
     (img_element [(''src'', u ''https://example.com/a.jpg''),
                   (''width'', u ''300''), (''height'', u ''300'')])"
proof -
  have a: "\<not> has_ext exclude_patterns (u ''https://example.com/a.jpg'')"
    by (simp add: has_ext_def exclude_patterns_def u_def)
  have b: "has_ext [''.jpg'', ''.jpeg'', ''.png'', ''.webp''] (u ''https://example.com/a.jpg'')"
    by (simp add: has_ext_def u_def)
  have c: "py_int (u ''300'') = Some 300"
    by (simp add: u_def int_defs)
  have d: "\<not> too_small (img_element [(''src'', u ''https://example.com/a.jpg''),
                   (''width'', u ''300''), (''height'', u ''300'')])"
    by (simp add: too_small_def attr_int_def img_element_def c)
  show ?thesis
    unfolding is_product_image_def Let_def lower1 using a b d by simp
qed

lemma prod2:
  "is_product_image lower_ascii (u ''https://cbu01.alicdn.com/x_800_b.jpg'')
     (img_element [(''src'', u ''https://cbu01.alicdn.com/x_800_b.jpg'')])"
proof -
  have a: "\<not> has_ext exclude_patterns (u ''https://cbu01.alicdn.com/x_800_b.jpg'')"
    by (simp add: has_ext_def exclude_patterns_def u_def)
  have b: "py_in (u ''alicdn.com'') (u ''https://cbu01.alicdn.com/x_800_b.jpg'')"
    by (simp add: u_def)
  have d: "\<not> too_small (img_element [(''src'', u ''https://cbu01.alicdn.com/x_800_b.jpg'')])"
    by (simp add: too_small_def attr_int_def img_element_def)
  show ?thesis
    unfolding is_product_image_def Let_def lower2 using a b d by simp
qed

lemma tag_url1:
  "tag_image_url lower_ascii (img_element [(''src'', u ''https://example.com/a.jpg''),
                   (''width'', u ''300''), (''height'', u ''300'')]) tag_attributes
     = Returned (Some (u ''https://example.com/a.jpg''))"
proof -
  have "has_ext (image_exts @ [''.bmp'']) (lower_ascii (u ''https://example.com/a.jpg''))"
    unfolding lower1 by (simp add: has_ext_def image_exts_def u_def)
  moreover have "startswith (u ''https://example.com/a.jpg'') (u ''http'')"
    by (simp add: startswith_def u_def)
  moreover have "u ''https://example.com/a.jpg'' \<noteq> []" by (simp add: u_def)
  ultimately show ?thesis
    by (simp add: tag_attributes_def img_element_def)
qed

lemma tag_url2:
  "tag_image_url lower_ascii (img_element [(''src'', u ''https://cbu01.alicdn.com/x_800_b.jpg'')]) tag_attributes
     = Returned (Some (u ''https://cbu01.alicdn.com/x_800_b.jpg''))"
proof -
  have "has_ext (image_exts @ [''.bmp'']) (lower_ascii (u ''https://cbu01.alicdn.com/x_800_b.jpg''))"
    unfolding lower2 by (simp add: has_ext_def image_exts_def u_def)
  moreover have "startswith (u ''https://cbu01.alicdn.com/x_800_b.jpg'') (u ''http'')"
    by (simp add: startswith_def u_def)
  moreover have "u ''https://cbu01.alicdn.com/x_800_b.jpg'' \<noteq> []" by (simp add: u_def)
  ultimately show ?thesis
    by (simp add: tag_attributes_def img_element_def)
qed

lemma tag_url3:
  "tag_image_url lower_ascii (img_element [(''data-src'', u ''https://cbu01.alicdn.com/x_800_b.jpg'')]) tag_attributes
     = Returned (Some (u ''https://cbu01.alicdn.com/x_800_b.jpg''))"
proof -
  have "has_ext (image_exts @ [''.bmp'']) (lower_ascii (u ''https://cbu01.alicdn.com/x_800_b.jpg''))"
    unfolding lower2 by (simp add: has_ext_def image_exts_def u_def)
  moreover have "startswith (u ''https://cbu01.alicdn.com/x_800_b.jpg'') (u ''http'')"
    by (simp add: startswith_def u_def)
  moreover have "u ''https://cbu01.alicdn.com/x_800_b.jpg'' \<noteq> []" by (simp add: u_def)
  ultimately show ?thesis
    by (simp add: tag_attributes_def img_element_def)
qed

lemma urls_differ: "u ''https://example.com/a.jpg'' \<noteq> u ''https://cbu01.alicdn.com/x_800_b.jpg''"
  by (simp add: u_def)

lemma image1:
  "make_image (img_element [(''src'', u ''https://example.com/a.jpg''),
                   (''width'', u ''300''), (''height'', u ''300'')])
     (u ''https://example.com/a.jpg'') (u ''img_tag'') = Returned tagged_large_image"
  by (simp add: make_image_def attr_or_def img_element_def tagged_large_image_def
        plain_large_image_def) (simp add: u_def)

lemma image2:
  "make_image (img_element [(''src'', u ''https://cbu01.alicdn.com/x_800_b.jpg'')])
     (u ''https://cbu01.alicdn.com/x_800_b.jpg'') (u ''img_tag'') = Returned cdn_big_image"
  by (simp add: make_image_def attr_or_def img_element_def cdn_big_image_def)

lemma gallery_first_pass:
  "fold (tag_step lower_ascii)
     [img_element [(''src'', u ''https://example.com/a.jpg''),
                   (''width'', u ''300''), (''height'', u ''300'')],
      img_element [(''src'', u ''https://cbu01.alicdn.com/x_800_b.jpg'')],
      img_element [(''data-src'', u ''https://cbu01.alicdn.com/x_800_b.jpg'')]] ([], {})
   = ([tagged_large_image, cdn_big_image],
      {u ''https://cbu01.alicdn.com/x_800_b.jpg'', u ''https://example.com/a.jpg''})"
  using urls_differ
  by (simp add: tag_step_def tag_url1 tag_url2 tag_url3 prod1 prod2 image1 image2)


lemma best_url1:
  "get_best_image_url lower_ascii (img_element [(''src'', u ''https://example.com/a.jpg''),
                   (''width'', u ''300''), (''height'', u ''300'')])
     = Some (u ''https://example.com/a.jpg'')"
proof -
  have "has_ext image_exts (lower_ascii (u ''https://example.com/a.jpg''))"
    unfolding lower1 by (simp add: has_ext_def image_exts_def u_def)
  moreover have "startswith (u ''https://example.com/a.jpg'') (u ''http'')"
    by (simp add: startswith_def u_def)
  moreover have "u ''https://example.com/a.jpg'' \<noteq> []" by (simp add: u_def)
  ultimately show ?thesis
    by (simp add: get_best_image_url_def img_element_def)
qed

lemma best_url2:
  "get_best_image_url lower_ascii (img_element [(''src'', u ''https://cbu01.alicdn.com/x_800_b.jpg'')])
     = Some (u ''https://cbu01.alicdn.com/x_800_b.jpg'')"
proof -
  have "py_in (u ''_b.jpg'') (u ''https://cbu01.alicdn.com/x_800_b.jpg'')"
    by (simp add: u_def)
  moreover have "startswith (u ''https://cbu01.alicdn.com/x_800_b.jpg'') (u ''http'')"
    by (simp add: startswith_def u_def)
  moreover have "u ''https://cbu01.alicdn.com/x_800_b.jpg'' \<noteq> []" by (simp add: u_def)
  ultimately show ?thesis
    by (simp add: get_best_image_url_def img_element_def)
qed

lemma best_url3:
  "get_best_image_url lower_ascii (img_element [(''data-src'', u ''https://cbu01.alicdn.com/x_800_b.jpg'')])
     = Some (u ''https://cbu01.alicdn.com/x_800_b.jpg'')"
proof -
  have "py_in (u ''_b.jpg'') (u ''https://cbu01.alicdn.com/x_800_b.jpg'')"
    by (simp add: u_def)
  moreover have "startswith (u ''https://cbu01.alicdn.com/x_800_b.jpg'') (u ''http'')"
    by (simp add: startswith_def u_def)
  moreover have "u ''https://cbu01.alicdn.com/x_800_b.jpg'' \<noteq> []" by (simp add: u_def)
  ultimately show ?thesis
    by (simp add: get_best_image_url_def img_element_def)
qed

lemma gallery_collect:
  "collect_images lower_ascii no_matches no_script gallery_page gallery_page
     = Some (Returned [tagged_large_image, cdn_big_image])"
proof -
  have imgs: "find_elements_tag gallery_page ''img'' = Returned
     [img_element [(''src'', u ''https://example.com/a.jpg''),
                   (''width'', u ''300''), (''height'', u ''300'')],
      img_element [(''src'', u ''https://cbu01.alicdn.com/x_800_b.jpg'')],
      img_element [(''data-src'', u ''https://cbu01.alicdn.com/x_800_b.jpg'')]]"
    by (simp add: gallery_page_def)
  have regex: "\<And>st. regex_pass lower_ascii no_matches gallery_page st = st"
    by (simp add: regex_pass_def gallery_page_def blank_page_def alicdn_patterns_def
          no_matches_def)
  have containers: "\<And>st. fold (container_step lower_ascii gallery_page) image_containers st = st"
    by (simp add: image_containers_def container_step_def gallery_page_def blank_page_def)
  have scroll: "scroll_to_load_images no_script = Some ()"
    by (simp add: scroll_to_load_images_def no_script_def)
  have lazy: "fold (lazy_step lower_ascii)
     [img_element [(''src'', u ''https://example.com/a.jpg''),
                   (''width'', u ''300''), (''height'', u ''300'')],
      img_element [(''src'', u ''https://cbu01.alicdn.com/x_800_b.jpg'')],
      img_element [(''data-src'', u ''https://cbu01.alicdn.com/x_800_b.jpg'')]]
     ([tagged_large_image, cdn_big_image],
      {u ''https://cbu01.alicdn.com/x_800_b.jpg'', u ''https://example.com/a.jpg''})
     = ([tagged_large_image, cdn_big_image],
      {u ''https://cbu01.alicdn.com/x_800_b.jpg'', u ''https://example.com/a.jpg''})"
    by (simp add: lazy_step_def best_url1 best_url2 best_url3)
  show ?thesis
    unfolding collect_images_def imgs Let_def attempt.case gallery_first_pass regex containers
      scroll option.case lazy
    by simp
qed

lemma tagged_large_priority: "get_image_priority lower_ascii tagged_large_image = 60"
proof -
  have url: "lower_ascii (img_url tagged_large_image) =
          [104, 116, 116, 112, 115, 58, 47, 47, 101, 120, 97, 109, 112, 108, 101, 46, 99, 111,
           109, 47, 97, 46, 106, 112, 103]"
    by (simp add: tagged_large_image_def plain_large_image_def u_def lower_ascii_def lower_char_def)
  have size: "py_int (img_width tagged_large_image) = Some 300"
             "py_int (img_height tagged_large_image) = Some 300"
    by (simp_all add: tagged_large_image_def plain_large_image_def u_def py_int_300)
  have origin: "img_source tagged_large_image = u ''img_tag''"
    by (simp add: tagged_large_image_def)
  show ?thesis
    unfolding get_image_priority_def Let_def add_if add_if2 url size origin
    by (simp add: u_def)
qed

lemma cdn_big_priority: "get_image_priority lower_ascii cdn_big_image = 200"
proof -
  have url: "lower_ascii (img_url cdn_big_image) =
          [104, 116, 116, 112, 115, 58, 47, 47, 99, 98, 117, 48, 49, 46, 97, 108, 105, 99, 100,
           110, 46, 99, 111, 109, 47, 120, 95, 56, 48, 48, 95, 98, 46, 106, 112, 103]"
    by (simp add: cdn_big_image_def u_def lower_ascii_def lower_char_def)
  have size: "py_int (img_width cdn_big_image) = Some 0" "py_int (img_height cdn_big_image) = Some 0"
    by (simp_all add: cdn_big_image_def u_def py_int_0)
  have origin: "img_source cdn_big_image = u ''img_tag''"
    by (simp add: cdn_big_image_def)
  show ?thesis
    unfolding get_image_priority_def Let_def add_if add_if2 url size origin
    by (simp add: u_def)
qed

lemma gallery_images:
  "extract_images lower_ascii no_matches no_script gallery_page gallery_page
     = Some [cdn_big_image, tagged_large_image]"
  by (simp add: extract_images_def gallery_collect sort_images_by_quality_def
        tagged_large_priority cdn_big_priority)

text \<open>
  C2: every list that \<open>extract_images\<close> returns has pairwise distinct URLs, is sorted
  by non-increasing \<open>get_image_priority\<close>, and holds the candidates of each score in the
  order in which they were collected. \<open>extract_images\<close> returns unless the loop of
  \<open>scroll_to_load_images\<close> runs for ever, which it does not when the viewport height it
  reads is positive, is \<open>null\<close> or cannot be read.
\<close>

theorem image_list_invariants:
  "(extract_images lower findall_i js pg pg' = Some imgs \<longrightarrow>
      distinct (map img_url imgs)
      \<and> sorted_wrt (\<lambda>a b. get_image_priority lower b \<le> get_image_priority lower a) imgs
      \<and> (\<forall>found. collect_images lower findall_i js pg pg' = Some (Returned found) \<longrightarrow>
            (\<forall>s. filter (\<lambda>c. get_image_priority lower c = s) imgs
                 = filter (\<lambda>c. get_image_priority lower c = s) found)))
   \<and> ((\<exists>imgs. extract_images lower findall_i js pg pg' = Some imgs)
        = (find_elements_tag pg ''img'' = Raised \<or> scroll_to_load_images js \<noteq> None))
   \<and> (js 2 = Raised \<or> js 2 = Returned JNull \<or> (\<exists>v. js 2 = Returned (JInt v) \<and> 0 < v)
        \<longrightarrow> scroll_to_load_images js = Some ())"
proof (intro conjI impI)
  assume r: "extract_images lower findall_i js pg pg' = Some imgs"
  show "distinct (map img_url imgs)"
  proof (cases "collect_images lower findall_i js pg pg'")
    case None
    with r show ?thesis by (simp add: extract_images_def)
  next
    case (Some c)
    show ?thesis
    proof (cases c)
      case Raised
      with Some r show ?thesis by (simp add: extract_images_def)
    next
      case (Returned images)
      with Some have "distinct (map img_url images)"
        using collect_images_distinct by blast
      with Some Returned r sort_images_distinct[of images] show ?thesis
        by (auto simp: extract_images_def split: if_splits)
    qed
  qed
  show "sorted_wrt (\<lambda>a b. get_image_priority lower b \<le> get_image_priority lower a) imgs"
    using r sort_images_descending
    by (auto simp: extract_images_def split: option.splits attempt.splits if_splits)
  show "\<forall>found. collect_images lower findall_i js pg pg' = Some (Returned found) \<longrightarrow>
            (\<forall>s. filter (\<lambda>c. get_image_priority lower c = s) imgs
                 = filter (\<lambda>c. get_image_priority lower c = s) found)"
    using r sort_images_stable
    by (auto simp: extract_images_def split: if_splits)
next
  show "(\<exists>imgs. extract_images lower findall_i js pg pg' = Some imgs)
        = (find_elements_tag pg ''img'' = Raised \<or> scroll_to_load_images js \<noteq> None)"
    by (auto simp: extract_images_def collect_images_def Let_def
             split: option.splits attempt.splits)
next
  assume "js 2 = Raised \<or> js 2 = Returned JNull \<or> (\<exists>v. js 2 = Returned (JInt v) \<and> 0 < v)"
  then show "scroll_to_load_images js = Some ()" by (rule scroll_returns)
qed

theorem image_list_invariants_witness:
  "extract_images lower_ascii no_matches no_script gallery_page gallery_page
     = Some [cdn_big_image, tagged_large_image]
   \<and> collect_images lower_ascii no_matches no_script gallery_page gallery_page
     = Some (Returned [tagged_large_image, cdn_big_image])
   \<and> distinct (map img_url [cdn_big_image, tagged_large_image])
   \<and> sorted_wrt (\<lambda>a b. get_image_priority lower_ascii b \<le> get_image_priority lower_ascii a)
        [cdn_big_image, tagged_large_image]
   \<and> scroll_to_load_images no_script = Some ()"
proof -
  have "no_script 2 = Raised" by (simp add: no_script_def)
  with image_list_invariants
         [of lower_ascii no_matches no_script gallery_page gallery_page
             "[cdn_big_image, tagged_large_image]"]
       gallery_images gallery_collect
  show ?thesis by blast
qed

section \<open>Properties of the item pipeline\<close>

lemma key_codes:
  "u ''index'' = [105, 110, 100, 101, 120]"
  "u ''url'' = [117, 114, 108]"
  "u ''timestamp'' = [116, 105, 109, 101, 115, 116, 97, 109, 112]"
  "u ''title'' = [116, 105, 116, 108, 101]"
  "u ''price'' = [112, 114, 105, 99, 101]"
  "u ''images'' = [105, 109, 97, 103, 101, 115]"
  "u ''supplier'' = [115, 117, 112, 112, 108, 105, 101, 114]"
  "u ''specifications'' = [115, 112, 101, 99, 105, 102, 105, 99, 97, 116, 105, 111, 110, 115]"
  "u ''moq'' = [109, 111, 113]"
  "u ''description'' = [100, 101, 115, 99, 114, 105, 112, 116, 105, 111, 110]"
  "u ''contact_info'' = [99, 111, 110, 116, 97, 99, 116, 95, 105, 110, 102, 111]"
  by (simp_all add: u_def)

lemma strs_kind: "is_none_or_strs (strs_or_none r)"
  by (cases r) (simp_all add: strs_or_none_def list_all_iff)

lemma str_kind: "is_none_or_str (str_or_none r)"
  by (cases r) (simp_all add: str_or_none_def)

lemma specs_kind: "is_dict (specs_dict sp)"
  by (simp add: specs_dict_def)

lemma simple_record_shape:
  "fixed_keys_record
     [(u ''index'', PInt i), (u ''url'', PStr url), (u ''timestamp'', PStr ts),
      (u ''title'', str_or_none title), (u ''price'', strs_or_none price),
      (u ''images'', PList images), (u ''supplier'', str_or_none supplier),
      (u ''specifications'', specs_dict specs), (u ''moq'', str_or_none moq)]"
  unfolding fixed_keys_record_def has_kind_def key_codes
  by (simp add: strs_kind str_kind specs_kind)

lemma batch_record_shape:
  "fixed_keys_record
     [(u ''index'', PInt i), (u ''url'', PStr url), (u ''timestamp'', PStr ts),
      (u ''title'', str_or_none title), (u ''price'', strs_or_none price),
      (u ''images'', PList images), (u ''supplier'', str_or_none supplier),
      (u ''specifications'', specs_dict specs), (u ''description'', str_or_none description),
      (u ''moq'', str_or_none moq), (u ''contact_info'', contact)]"
  unfolding fixed_keys_record_def has_kind_def key_codes
  by (simp add: strs_kind str_kind specs_kind)

lemma simple_product:
  assumes "extract_single_product rt s index = Some v"
  shows "v = PNone
    \<or> (\<exists>url images.
          extract_images (rt_lower rt) (rt_findall rt) (scroll_js s) (loaded s) (scrolled s) = Some images
          \<and> v = PDict
              [(u ''index'', PInt (int index)), (u ''url'', PStr url),
               (u ''timestamp'', PStr (now s)),
               (u ''title'', str_or_none (extract_title title_selectors (loaded s))),
               (u ''price'', strs_or_none (extract_price (rt_set_list rt) (loaded s))),
               (u ''images'', PList (map image_dict images)),
               (u ''supplier'', str_or_none (extract_supplier (scrolled s))),
               (u ''specifications'', specs_dict (extract_specifications (scrolled s))),
               (u ''moq'', str_or_none (extract_moq (rt_search rt) (scrolled s)))])"
  using assms
  by (auto simp: extract_single_product_def Let_def split: attempt.splits option.splits)

lemma batch_product:
  assumes "extract_single_product_batch rt s index = Some v"
  shows "v = PNone
    \<or> (\<exists>url price moq contact.
          v = PDict
              [(u ''index'', PInt (int index)), (u ''url'', PStr url),
               (u ''timestamp'', PStr (now s)),
               (u ''title'', str_or_none (extract_title title_selectors_batch (loaded s))),
               (u ''price'', strs_or_none price),
               (u ''images'', PList (extract_images_batch (loaded s))),
               (u ''supplier'', str_or_none (extract_supplier (loaded s))),
               (u ''specifications'', specs_dict (extract_specifications (loaded s))),
               (u ''description'', str_or_none (extract_description (loaded s))),
               (u ''moq'', str_or_none moq), (u ''contact_info'', contact)])"
  using assms
  by (auto simp: extract_single_product_batch_def extract_all_data_def Let_def
           split: attempt.splits option.splits)


lemma product_keys_of_simple:
  "map fst
     [(u ''index'', a), (u ''url'', b), (u ''timestamp'', c), (u ''title'', d), (u ''price'', e),
      (u ''images'', f), (u ''supplier'', g), (u ''specifications'', h), (u ''moq'', i)]
   = product_keys"
  by (simp add: product_keys_def)

lemma product_keys_in_batch:
  "set product_keys \<subseteq> set (map fst
     [(u ''index'', a), (u ''url'', b), (u ''timestamp'', c), (u ''title'', d), (u ''price'', e),
      (u ''images'', f), (u ''supplier'', g), (u ''specifications'', h), (u ''description'', j),
      (u ''moq'', i), (u ''contact_info'', k)])"
  by (simp add: product_keys_def)

lemma simple_lookup:
  "map_of [(u ''index'', a), (u ''url'', b), (u ''timestamp'', c), (u ''title'', d),
           (u ''price'', e), (u ''images'', f), (u ''supplier'', g), (u ''specifications'', h),
           (u ''moq'', i)] (u ''index'') = Some a"
  "map_of [(u ''index'', a), (u ''url'', b), (u ''timestamp'', c), (u ''title'', d),
           (u ''price'', e), (u ''images'', f), (u ''supplier'', g), (u ''specifications'', h),
           (u ''moq'', i)] (u ''title'') = Some d"
  "map_of [(u ''index'', a), (u ''url'', b), (u ''timestamp'', c), (u ''title'', d),
           (u ''price'', e), (u ''images'', f), (u ''supplier'', g), (u ''specifications'', h),
           (u ''moq'', i)] (u ''price'') = Some e"
  "map_of [(u ''index'', a), (u ''url'', b), (u ''timestamp'', c), (u ''title'', d),
           (u ''price'', e), (u ''images'', f), (u ''supplier'', g), (u ''specifications'', h),
           (u ''moq'', i)] (u ''images'') = Some f"
  "map_of [(u ''index'', a), (u ''url'', b), (u ''timestamp'', c), (u ''title'', d),
           (u ''price'', e), (u ''images'', f), (u ''supplier'', g), (u ''specifications'', h),
           (u ''moq'', i)] (u ''supplier'') = Some g"
  "map_of [(u ''index'', a), (u ''url'', b), (u ''timestamp'', c), (u ''title'', d),
           (u ''price'', e), (u ''images'', f), (u ''supplier'', g), (u ''specifications'', h),
           (u ''moq'', i)] (u ''specifications'') = Some h"
  "map_of [(u ''index'', a), (u ''url'', b), (u ''timestamp'', c), (u ''title'', d),
           (u ''price'', e), (u ''images'', f), (u ''supplier'', g), (u ''specifications'', h),
           (u ''moq'', i)] (u ''moq'') = Some i"
  unfolding key_codes by simp_all


lemma blank_selectors_fail':
  "find_element_css pg = (\<lambda>s. Raised) \<Longrightarrow> first_selector_text pg n sels = None"
  by (induction sels) (simp_all add: selector_text_def)

lemma blank_title: "extract_title sels blank_page = None"
  by (simp add: extract_title_def blank_selectors_fail' blank_page_def)

lemma blank_supplier: "extract_supplier blank_page = None"
  by (simp add: extract_supplier_def blank_selectors_fail' blank_page_def)

lemma blank_price_loop:
  "find_elements_css pg = (\<lambda>s. Returned []) \<Longrightarrow> price_selector_loop pg sels prices = prices"
  by (induction sels) simp_all

lemma blank_price: "extract_price set_list blank_page = None"
  by (simp add: extract_price_def unique_prices_def collected_prices_def blank_price_loop
        body_text_def blank_page_def)

lemma blank_specs: "extract_specifications blank_page = []"
  by (simp add: extract_specifications_def blank_page_def)

lemma blank_moq: "extract_moq search blank_page = None"
  by (simp add: extract_moq_def body_text_def blank_page_def)

lemma blank_containers:
  "find_elements_css pg = (\<lambda>s. Returned []) \<Longrightarrow> fold (container_step lower pg) sels st = st"
  by (induction sels) (simp_all add: container_step_def)

lemma blank_images:
  "extract_images lower (\<lambda>pattern source. []) (\<lambda>k. Raised) blank_page blank_page = Some []"
proof -
  have regex: "\<And>st. regex_pass lower (\<lambda>pattern source. []) blank_page st = st"
    by (simp add: regex_pass_def blank_page_def alicdn_patterns_def)
  have containers: "\<And>st. fold (container_step lower blank_page) image_containers st = st"
    by (rule blank_containers) (simp add: blank_page_def)
  have scroll: "scroll_to_load_images (\<lambda>k. Raised) = Some ()"
    by (simp add: scroll_to_load_images_def)
  have imgs: "find_elements_tag blank_page ''img'' = Returned []"
    by (simp add: blank_page_def)
  show ?thesis
    unfolding extract_images_def collect_images_def imgs Let_def
    by (simp add: regex containers scroll)
qed

lemma calm_record:
  "extract_single_product plain_runtime calm_session index = Some (PDict (empty_record index))"
proof -
  have sim: "human_simulate steady_exec [250, 120] = Returned ()"
    by (simp add: human_simulate_def steady_exec_def)
  have url: "current_url blank_page = Returned []"
    by (simp add: blank_page_def)
  show ?thesis
    unfolding extract_single_product_def
    by (simp add: calm_session_def plain_runtime_def sim url blank_title blank_price
          blank_images blank_supplier blank_specs blank_moq empty_record_def
          str_or_none_def strs_or_none_def specs_dict_def Let_def)
qed


lemma findall_empty: "p \<in> set price_patterns \<Longrightarrow> findall p [] = []"
proof -
  assume "p \<in> set price_patterns"
  then have "matches p [] = []"
    by (auto simp: price_patterns_def matches.simps)
  from findall_no_match[OF this] show ?thesis by simp
qed

lemma regex_prices_empty: "regex_prices [] = []"
  by (simp add: regex_prices_def findall_empty)

lemma bare_record:
  "extract_single_product_batch plain_runtime bare_session index
     = Some (PDict (empty_record_batch index))"
proof -
  have sim: "human_simulate steady_exec [250, 120] = Returned ()"
    by (simp add: human_simulate_def steady_exec_def)
  have css: "find_element_css (body_page []) = (\<lambda>s. Raised)"
            "find_elements_css (body_page []) = (\<lambda>s. Returned [])"
    by (simp_all add: body_page_def blank_page_def)
  have body: "body_text (body_page []) = Returned []"
    by (simp add: body_text_def body_page_def text_element_def)
  have ptitle: "page_title (body_page []) = Returned []"
    by (simp add: body_page_def blank_page_def)
  have title: "extract_title title_selectors_batch (body_page []) = None"
    by (simp add: extract_title_def blank_selectors_fail'[OF css(1)] ptitle)
  have supplier: "extract_supplier (body_page []) = None"
    by (simp add: extract_supplier_def blank_selectors_fail'[OF css(1)])
  have description: "extract_description (body_page []) = None"
    by (simp add: extract_description_def blank_selectors_fail'[OF css(1)])
  have price: "extract_price_batch remdups (body_page []) = Returned None"
    by (simp add: extract_price_batch_def blank_price_loop[OF css(2)] body regex_prices_empty
          unique_prices_def)
  have moq: "extract_moq_batch (\<lambda>keyword text. None) (body_page []) = Returned None"
    by (simp add: extract_moq_batch_def body moq_keywords_def)
  have contact: "extract_contact_info remdups (\<lambda>text. []) (body_page []) = Returned (PDict [])"
    by (simp add: extract_contact_info_def body)
  have images: "extract_images_batch (body_page []) = []"
    by (simp add: extract_images_batch_def body_page_def blank_page_def)
  have specs: "extract_specifications (body_page []) = []"
    by (simp add: extract_specifications_def body_page_def blank_page_def)
  have url: "current_url (body_page []) = Returned []"
    by (simp add: body_page_def blank_page_def)
  have data: "extract_all_data plain_runtime bare_session index
                = Returned (PDict (empty_record_batch index))"
    unfolding extract_all_data_def
    by (simp add: bare_session_def calm_session_def plain_runtime_def url price moq contact
          title supplier description images specs empty_record_batch_def
          str_or_none_def strs_or_none_def specs_dict_def)
  have nav: "navigation bare_session = Returned ()"
    and sim': "human_simulate (scroll_exec bare_session) (scroll_draws bare_session) = Returned ()"
    by (simp_all add: bare_session_def calm_session_def sim)
  show ?thesis
    unfolding extract_single_product_batch_def
    by (simp add: data nav sim' Let_def)
qed


text \<open>
  C10: whatever the item pipeline of \<open>simple_batch_1688.py\<close> returns is \<open>None\<close> or a
  dictionary with exactly the nine keys \<open>index\<close>, \<open>url\<close>, \<open>timestamp\<close>, \<open>title\<close>, \<open>price\<close>,
  \<open>images\<close>, \<open>supplier\<close>, \<open>specifications\<close>, \<open>moq\<close>, in which \<open>images\<close> is a list,
  \<open>specifications\<close> a dictionary, and \<open>title\<close>, \<open>price\<close>, \<open>supplier\<close>, \<open>moq\<close> are \<open>None\<close>
  or a value; a field whose extractor finds nothing is there with \<open>None\<close>, or with the
  empty list or dictionary. The dictionary of \<open>batch_1688.py\<close> has these nine keys with
  the same kinds of values, and two more.
\<close>

theorem record_has_fixed_keys:
  "(\<forall>v. extract_single_product rt s index = Some v \<longrightarrow>
        v = PNone
        \<or> (\<exists>d. v = PDict d \<and> map fst d = product_keys \<and> fixed_keys_record d
              \<and> (extract_title title_selectors (loaded s) = None
                    \<longrightarrow> map_of d (u ''title'') = Some PNone)
              \<and> (extract_price (rt_set_list rt) (loaded s) = None
                    \<longrightarrow> map_of d (u ''price'') = Some PNone)
              \<and> (extract_supplier (scrolled s) = None
                    \<longrightarrow> map_of d (u ''supplier'') = Some PNone)
              \<and> (extract_moq (rt_search rt) (scrolled s) = None
                    \<longrightarrow> map_of d (u ''moq'') = Some PNone)
              \<and> (extract_images (rt_lower rt) (rt_findall rt) (scroll_js s) (loaded s) (scrolled s) = Some []
                    \<longrightarrow> map_of d (u ''images'') = Some (PList []))
              \<and> (extract_specifications (scrolled s) = []
                    \<longrightarrow> map_of d (u ''specifications'') = Some (PDict []))))
   \<and> (\<forall>v. extract_single_product_batch rt s index = Some v \<longrightarrow>
        v = PNone
        \<or> (\<exists>d. v = PDict d \<and> set product_keys \<subseteq> set (map fst d) \<and> fixed_keys_record d))"
proof (intro conjI allI impI)
  fix v assume "extract_single_product rt s index = Some v"
  from simple_product[OF this]
  show "v = PNone
        \<or> (\<exists>d. v = PDict d \<and> map fst d = product_keys \<and> fixed_keys_record d
              \<and> (extract_title title_selectors (loaded s) = None
                    \<longrightarrow> map_of d (u ''title'') = Some PNone)
              \<and> (extract_price (rt_set_list rt) (loaded s) = None
                    \<longrightarrow> map_of d (u ''price'') = Some PNone)
              \<and> (extract_supplier (scrolled s) = None
                    \<longrightarrow> map_of d (u ''supplier'') = Some PNone)
              \<and> (extract_moq (rt_search rt) (scrolled s) = None
                    \<longrightarrow> map_of d (u ''moq'') = Some PNone)
              \<and> (extract_images (rt_lower rt) (rt_findall rt) (scroll_js s) (loaded s) (scrolled s) = Some []
                    \<longrightarrow> map_of d (u ''images'') = Some (PList []))
              \<and> (extract_specifications (scrolled s) = []
                    \<longrightarrow> map_of d (u ''specifications'') = Some (PDict [])))"
  proof
    assume "v = PNone"
    then show ?thesis by simp
  next
    assume "\<exists>url images.
          extract_images (rt_lower rt) (rt_findall rt) (scroll_js s) (loaded s) (scrolled s) = Some images
          \<and> v = PDict
              [(u ''index'', PInt (int index)), (u ''url'', PStr url),
               (u ''timestamp'', PStr (now s)),
               (u ''title'', str_or_none (extract_title title_selectors (loaded s))),
               (u ''price'', strs_or_none (extract_price (rt_set_list rt) (loaded s))),
               (u ''images'', PList (map image_dict images)),
               (u ''supplier'', str_or_none (extract_supplier (scrolled s))),
               (u ''specifications'', specs_dict (extract_specifications (scrolled s))),
               (u ''moq'', str_or_none (extract_moq (rt_search rt) (scrolled s)))]"
    then obtain url images where
      im: "extract_images (rt_lower rt) (rt_findall rt) (scroll_js s) (loaded s) (scrolled s) = Some images"
      and v: "v = PDict
              [(u ''index'', PInt (int index)), (u ''url'', PStr url),
               (u ''timestamp'', PStr (now s)),
               (u ''title'', str_or_none (extract_title title_selectors (loaded s))),
               (u ''price'', strs_or_none (extract_price (rt_set_list rt) (loaded s))),
               (u ''images'', PList (map image_dict images)),
               (u ''supplier'', str_or_none (extract_supplier (scrolled s))),
               (u ''specifications'', specs_dict (extract_specifications (scrolled s))),
               (u ''moq'', str_or_none (extract_moq (rt_search rt) (scrolled s)))]"
      by blast
    let ?d = "[(u ''index'', PInt (int index)), (u ''url'', PStr url),
               (u ''timestamp'', PStr (now s)),
               (u ''title'', str_or_none (extract_title title_selectors (loaded s))),
               (u ''price'', strs_or_none (extract_price (rt_set_list rt) (loaded s))),
               (u ''images'', PList (map image_dict images)),
               (u ''supplier'', str_or_none (extract_supplier (scrolled s))),
               (u ''specifications'', specs_dict (extract_specifications (scrolled s))),
               (u ''moq'', str_or_none (extract_moq (rt_search rt) (scrolled s)))]"
    have keys: "map fst ?d = product_keys" by (rule product_keys_of_simple)
    have shape: "fixed_keys_record ?d" by (rule simple_record_shape)
    have title: "extract_title title_selectors (loaded s) = None
                   \<longrightarrow> map_of ?d (u ''title'') = Some PNone"
      unfolding simple_lookup by (simp add: str_or_none_def)
    have price: "extract_price (rt_set_list rt) (loaded s) = None
                   \<longrightarrow> map_of ?d (u ''price'') = Some PNone"
      unfolding simple_lookup by (simp add: strs_or_none_def)
    have supplier: "extract_supplier (scrolled s) = None
                   \<longrightarrow> map_of ?d (u ''supplier'') = Some PNone"
      unfolding simple_lookup by (simp add: str_or_none_def)
    have moq: "extract_moq (rt_search rt) (scrolled s) = None
                   \<longrightarrow> map_of ?d (u ''moq'') = Some PNone"
      unfolding simple_lookup by (simp add: str_or_none_def)
    have images: "extract_images (rt_lower rt) (rt_findall rt) (scroll_js s) (loaded s) (scrolled s) = Some []
                   \<longrightarrow> map_of ?d (u ''images'') = Some (PList [])"
      unfolding simple_lookup using im by simp
    have specs: "extract_specifications (scrolled s) = []
                   \<longrightarrow> map_of ?d (u ''specifications'') = Some (PDict [])"
      unfolding simple_lookup by (simp add: specs_dict_def)
    show ?thesis
      by (intro disjI2 exI[of _ ?d] conjI v keys shape title price supplier moq images specs)
  qed
next
  fix v assume "extract_single_product_batch rt s index = Some v"
  from batch_product[OF this]
  show "v = PNone
        \<or> (\<exists>d. v = PDict d \<and> set product_keys \<subseteq> set (map fst d) \<and> fixed_keys_record d)"
  proof
    assume "v = PNone"
    then show ?thesis by simp
  next
    assume "\<exists>url price moq contact.
          v = PDict
              [(u ''index'', PInt (int index)), (u ''url'', PStr url),
               (u ''timestamp'', PStr (now s)),
               (u ''title'', str_or_none (extract_title title_selectors_batch (loaded s))),
               (u ''price'', strs_or_none price),
               (u ''images'', PList (extract_images_batch (loaded s))),
               (u ''supplier'', str_or_none (extract_supplier (loaded s))),
               (u ''specifications'', specs_dict (extract_specifications (loaded s))),
               (u ''description'', str_or_none (extract_description (loaded s))),
               (u ''moq'', str_or_none moq), (u ''contact_info'', contact)]"
    then obtain url price moq contact where
      v: "v = PDict
              [(u ''index'', PInt (int index)), (u ''url'', PStr url),
               (u ''timestamp'', PStr (now s)),
               (u ''title'', str_or_none (extract_title title_selectors_batch (loaded s))),
               (u ''price'', strs_or_none price),
               (u ''images'', PList (extract_images_batch (loaded s))),
               (u ''supplier'', str_or_none (extract_supplier (loaded s))),
               (u ''specifications'', specs_dict (extract_specifications (loaded s))),
               (u ''description'', str_or_none (extract_description (loaded s))),
               (u ''moq'', str_or_none moq), (u ''contact_info'', contact)]"
      by blast
    show ?thesis
      by (intro disjI2 exI conjI, rule v, rule product_keys_in_batch, rule batch_record_shape)
  qed
qed

theorem record_has_fixed_keys_witness:
  "extract_single_product plain_runtime calm_session 1 = Some (PDict (empty_record 1))
   \<and> map fst (empty_record 1) = product_keys
   \<and> fixed_keys_record (empty_record 1)
   \<and> map_of (empty_record 1) (u ''title'') = Some PNone
   \<and> map_of (empty_record 1) (u ''images'') = Some (PList [])
   \<and> map_of (empty_record 1) (u ''specifications'') = Some (PDict [])
   \<and> extract_single_product_batch plain_runtime bare_session 1
        = Some (PDict (empty_record_batch 1))
   \<and> fixed_keys_record (empty_record_batch 1)"
proof -
  have a: "extract_title title_selectors (loaded calm_session) = None"
    by (simp add: calm_session_def blank_title)
  have b: "extract_images (rt_lower plain_runtime) (rt_findall plain_runtime) (scroll_js calm_session)
             (loaded calm_session) (scrolled calm_session) = Some []"
    by (simp add: calm_session_def plain_runtime_def blank_images)
  have c: "extract_specifications (scrolled calm_session) = []"
    by (simp add: calm_session_def blank_specs)
  from record_has_fixed_keys [of plain_runtime calm_session 1]
       calm_record [of 1] a b c
  have "map fst (empty_record 1) = product_keys
   \<and> fixed_keys_record (empty_record 1)
   \<and> map_of (empty_record 1) (u ''title'') = Some PNone
   \<and> map_of (empty_record 1) (u ''images'') = Some (PList [])
   \<and> map_of (empty_record 1) (u ''specifications'') = Some (PDict [])"
    by auto
  moreover from record_has_fixed_keys [of plain_runtime bare_session 1] bare_record [of 1]
  have "fixed_keys_record (empty_record_batch 1)" by auto
  ultimately show ?thesis using calm_record bare_record by simp
qed

section \<open>Properties of the batch orchestrator\<close>

























end
